theory Spec2Isabelle
  imports
    Complex_Main
    "HOL-Library.Multiset"
    "HOL-Library.Char_ord"
    "HOL-Library.List_Lexorder"
begin

section \<open>Data model of \<open>src/app/mahjong.tsx\<close>\<close>

text \<open>
  The turn engine of the Mahjong screen: tiles, players, the React state of the screen,
  and the functions \<open>createTileDeck\<close>, \<open>compareTiles\<close>, \<open>checkWin\<close>,
  \<open>findIsolatedTiles\<close>, \<open>findStrategicDiscard\<close>, \<open>selectTileToDiscard\<close>,
  \<open>drawTile\<close>, \<open>discardTile\<close> and \<open>initializeGame\<close>.
\<close>

datatype TileSuit = Bamboo | Character | Dot | Wind | Dragon | Flower

datatype WindValue = East | South | West | North

datatype DragonValue = Red | Green | White

text \<open>
  The field \<open>value?: TileValue | WindValue | DragonValue\<close>: at run time a number or a
  string, or absent (\<open>undefined\<close>, modelled as \<open>None\<close>). The type \<open>TileValue\<close> admits
  the numbers 1 to 9; the model takes any natural number.
\<close>

datatype TileVal = NumV nat | WindV WindValue | DragonV DragonValue

record Tile =
  tile_id :: string
  suit :: TileSuit
  tile_value :: "TileVal option"
  isSelected :: "bool option"

record Player =
  player_id :: string
  name :: string
  hand :: "Tile list"
  discarded :: "Tile list"
  isAI :: bool

subsection \<open>Strings of suits and values\<close>

text \<open>The suit is its own name as a string.\<close>

fun suitString :: "TileSuit \<Rightarrow> string" where
  "suitString Bamboo = ''bamboo''"
| "suitString Character = ''character''"
| "suitString Dot = ''dot''"
| "suitString Wind = ''wind''"
| "suitString Dragon = ''dragon''"
| "suitString Flower = ''flower''"

fun windString :: "WindValue \<Rightarrow> string" where
  "windString East = ''east''"
| "windString South = ''south''"
| "windString West = ''west''"
| "windString North = ''north''"

fun dragonString :: "DragonValue \<Rightarrow> string" where
  "dragonString Red = ''red''"
| "dragonString Green = ''green''"
| "dragonString White = ''white''"

definition digitChar :: "nat \<Rightarrow> char" where
  "digitChar d = char_of (48 + d)"

text \<open>The decimal numeral of a natural number, as template strings and \<open>String\<close> print it.\<close>

fun numberString :: "nat \<Rightarrow> string" where
  "numberString n =
     (if n < 10 then [digitChar n]
      else numberString (n div 10) @ [digitChar (n mod 10)])"

declare numberString.simps [simp del]

text \<open>\<open>String(tile.value)\<close> and \<open>${tile.value}\<close>.\<close>

fun valueString :: "TileVal option \<Rightarrow> string" where
  "valueString None = ''undefined''"
| "valueString (Some (NumV n)) = numberString n"
| "valueString (Some (WindV w)) = windString w"
| "valueString (Some (DragonV d)) = dragonString d"

text \<open>The key \<open>`${tile.suit}-${tile.value}`\<close> of \<open>checkWin\<close> and \<open>findStrategicDiscard\<close>.\<close>

definition tileKey :: "Tile \<Rightarrow> string" where
  "tileKey tile = suitString (suit tile) @ ''-'' @ valueString (tile_value tile)"

subsection \<open>The win predicate\<close>

text \<open>
  A JavaScript \<open>Map<string, number>\<close> is an association list in insertion order;
  \<open>tileCounts.set(key, (tileCounts.get(key) || 0) + 1)\<close> is \<open>countKey\<close>.
\<close>

fun mapGet :: "(string \<times> nat) list \<Rightarrow> string \<Rightarrow> nat option" where
  "mapGet [] key = None"
| "mapGet ((k, c) # m) key = (if k = key then Some c else mapGet m key)"

fun mapSet :: "(string \<times> nat) list \<Rightarrow> string \<Rightarrow> nat \<Rightarrow> (string \<times> nat) list" where
  "mapSet [] key v = [(key, v)]"
| "mapSet ((k, c) # m) key v = (if k = key then (k, v) # m else (k, c) # mapSet m key v)"

definition countKey :: "(string \<times> nat) list \<Rightarrow> string \<Rightarrow> (string \<times> nat) list" where
  "countKey m key =
     mapSet m key ((case mapGet m key of None \<Rightarrow> 0 | Some c \<Rightarrow> c) + 1)"

definition tileCounts :: "Tile list \<Rightarrow> (string \<times> nat) list" where
  "tileCounts h = fold (\<lambda>tile m. countKey m (tileKey tile)) h []"

text \<open>The loop \<open>tileCounts.forEach(count => ...)\<close> with its two counters.\<close>

definition countGroups :: "(string \<times> nat) list \<Rightarrow> nat \<times> nat" where
  "countGroups m =
     fold (\<lambda>(k, count) (pairs, triplets).
             (if count \<ge> 2 then pairs + 1 else pairs,
              if count \<ge> 3 then triplets + 1 else triplets)) m (0, 0)"

definition checkWin :: "Tile list \<Rightarrow> bool" where
  "checkWin h =
     (if length h \<noteq> 14 then False
      else (case countGroups (tileCounts h) of
              (pairs, triplets) \<Rightarrow> triplets \<ge> 3 \<or> pairs \<ge> 5))"

text \<open>
  The invariant of the counting loop: the map holds exactly the keys seen so far, each
  once, with the number of times it was seen.
\<close>

definition counted :: "(string \<times> nat) list \<Rightarrow> string list \<Rightarrow> bool" where
  "counted m ks =
     (distinct (map fst m) \<and> set (map fst m) = set ks \<and>
      (\<forall>k \<in> set ks. map_of m k = Some (count_list ks k)))"

subsection \<open>Grouping by suit and value, as the specification words it\<close>

text \<open>
  The specification of the win predicate speaks of groups of tiles with identical
  (suit, value): \<open>groupsAtLeast n h\<close> is the number of distinct (suit, value)
  combinations that occur at least \<open>n\<close> times in the hand \<open>h\<close>.
\<close>

definition suitValue :: "Tile \<Rightarrow> TileSuit \<times> TileVal option" where
  "suitValue tile = (suit tile, tile_value tile)"

definition groupsAtLeast :: "nat \<Rightarrow> Tile list \<Rightarrow> nat" where
  "groupsAtLeast n h =
     length (filter (\<lambda>k. n \<le> count_list (map suitValue h) k) (remdups (map suitValue h)))"

subsection \<open>Deck construction\<close>

text \<open>
  \<open>createTileDeck\<close> pushes onto \<open>tiles\<close> and increments \<open>idCounter\<close>: the pair of the
  two is threaded through the loops. \<open>pushTile\<close> is one \<open>tiles.push({...})\<close>, whose
  identifier is the given prefix, a dash and the counter.
\<close>

definition pushTile ::
  "string \<Rightarrow> TileSuit \<Rightarrow> TileVal \<Rightarrow> Tile list \<times> nat \<Rightarrow> Tile list \<times> nat" where
  "pushTile prefix s v st =
     (case st of (tiles, idCounter) \<Rightarrow>
        (tiles @ [\<lparr>tile_id = prefix @ ''-'' @ numberString idCounter, suit = s,
                   tile_value = Some v, isSelected = None\<rparr>],
         idCounter + 1))"

definition numberedTiles :: "Tile list \<times> nat \<Rightarrow> Tile list \<times> nat" where
  "numberedTiles =
     fold (\<lambda>s. fold (\<lambda>v. fold (\<lambda>copy. pushTile (suitString s @ ''-'' @ numberString v) s (NumV v))
                              [0..<4])
                     [1..<10])
          [Bamboo, Character, Dot]"

definition windTiles :: "Tile list \<times> nat \<Rightarrow> Tile list \<times> nat" where
  "windTiles =
     fold (\<lambda>w. fold (\<lambda>copy. pushTile (''wind-'' @ windString w) Wind (WindV w)) [0..<4])
          [East, South, West, North]"

definition dragonTiles :: "Tile list \<times> nat \<Rightarrow> Tile list \<times> nat" where
  "dragonTiles =
     fold (\<lambda>d. fold (\<lambda>copy. pushTile (''dragon-'' @ dragonString d) Dragon (DragonV d)) [0..<4])
          [Red, Green, White]"

text \<open>The array \<open>tiles\<close> before the final shuffle.\<close>

definition unshuffledTiles :: "Tile list" where
  "unshuffledTiles = fst (dragonTiles (windTiles (numberedTiles ([], 0))))"

text \<open>
  The shuffle is \<open>tiles.sort(() => Math.random() - 0.5)\<close>: a sort whose comparator
  answers at random. Which arrangement comes out depends on the engine's sorting
  algorithm and on the random answers, so the shuffle is a parameter of the model; a
  sort rearranges the array it is given, which is the assumption \<open>permuting\<close> on it.
\<close>

definition permuting :: "(Tile list \<Rightarrow> Tile list) \<Rightarrow> bool" where
  "permuting shuffle = (\<forall>xs. mset (shuffle xs) = mset xs)"

definition createTileDeck :: "(Tile list \<Rightarrow> Tile list) \<Rightarrow> Tile list" where
  "createTileDeck shuffle = shuffle unshuffledTiles"

text \<open>The 34 combinations of suit and value of a full set.\<close>

definition combinations :: "(TileSuit \<times> TileVal option) list" where
  "combinations =
     concat (map (\<lambda>s. map (\<lambda>v. (s, Some (NumV v))) [1..<10]) [Bamboo, Character, Dot])
     @ map (\<lambda>w. (Wind, Some (WindV w))) [East, South, West, North]
     @ map (\<lambda>d. (Dragon, Some (DragonV d))) [Red, Green, White]"

subsection \<open>Ordering and sorting\<close>

fun suitOrder :: "TileSuit \<Rightarrow> int" where
  "suitOrder Bamboo = 0"
| "suitOrder Character = 1"
| "suitOrder Dot = 2"
| "suitOrder Wind = 3"
| "suitOrder Dragon = 4"
| "suitOrder Flower = 5"

text \<open>
  \<open>localeCompare\<close> on the strings that occur here (decimal numerals, and lower-case
  words): digits come before letters and letters are in alphabetical order, which is the
  lexicographic order of the character codes. Only the sign of the result is used.
\<close>

definition localeCompare :: "string \<Rightarrow> string \<Rightarrow> int" where
  "localeCompare a b = (if a < b then - 1 else if a = b then 0 else 1)"

definition compareTiles :: "Tile \<Rightarrow> Tile \<Rightarrow> int" where
  "compareTiles a b =
     (if suitOrder (suit a) \<noteq> suitOrder (suit b) then suitOrder (suit a) - suitOrder (suit b)
      else (case (tile_value a, tile_value b) of
              (Some (NumV x), Some (NumV y)) \<Rightarrow> int x - int y
            | _ \<Rightarrow> localeCompare (valueString (tile_value a)) (valueString (tile_value b))))"

text \<open>
  The display order as the specification words it. The primary key is the rank of the
  suit, bamboo before character before dot before wind before dragon before flower; the
  secondary key is the value, by size when both values are numbers and otherwise by the
  lexicographic order of their textual forms.
\<close>

definition suitRanking :: "TileSuit list" where
  "suitRanking = [Bamboo, Character, Dot, Wind, Dragon, Flower]"

definition suitRank :: "TileSuit \<Rightarrow> nat" where
  "suitRank s = length (takeWhile (\<lambda>x. x \<noteq> s) suitRanking)"

definition valueLe :: "TileVal option \<Rightarrow> TileVal option \<Rightarrow> bool" where
  "valueLe v w =
     (case (v, w) of
        (Some (NumV x), Some (NumV y)) \<Rightarrow> x \<le> y
      | _ \<Rightarrow> valueString v \<le> valueString w)"

definition displayLe :: "Tile \<Rightarrow> Tile \<Rightarrow> bool" where
  "displayLe a b =
     (suitRank (suit a) < suitRank (suit b) \<or>
      (suit a = suit b \<and> valueLe (tile_value a) (tile_value b)))"

definition inDisplayOrder :: "Tile list \<Rightarrow> bool" where
  "inDisplayOrder xs = sorted_wrt displayLe xs"

text \<open>
  \<open>xs.sort((a, b) => compareTiles(a, b))\<close>: \<open>Array.prototype.sort\<close> is a stable sort,
  so with a consistent comparator its result is the one of stable insertion sort.
\<close>

fun insertTile :: "Tile \<Rightarrow> Tile list \<Rightarrow> Tile list" where
  "insertTile x [] = [x]"
| "insertTile x (y # ys) =
     (if compareTiles x y \<le> 0 then x # y # ys else y # insertTile x ys)"

definition sortTiles :: "Tile list \<Rightarrow> Tile list" where
  "sortTiles xs = foldr insertTile xs []"

definition sortedTiles :: "Tile list \<Rightarrow> bool" where
  "sortedTiles xs = sorted_wrt (\<lambda>a b. compareTiles a b \<le> 0) xs"

subsection \<open>The isolation test\<close>

text \<open>The callback of \<open>hand.some\<close> in \<open>findIsolatedTiles\<close>.\<close>

definition isNeighbor :: "Tile \<Rightarrow> nat \<Rightarrow> Tile \<Rightarrow> nat \<Rightarrow> bool" where
  "isNeighbor tile index other otherIndex =
     (if index = otherIndex then False
      else if suit tile \<noteq> suit other then False
      else (case (tile_value tile, tile_value other) of
              (Some (NumV x), Some (NumV y)) \<Rightarrow> \<bar>int x - int y\<bar> \<le> 2
            | _ \<Rightarrow> tile_value tile = tile_value other))"

definition hasNeighbor :: "Tile list \<Rightarrow> Tile \<Rightarrow> nat \<Rightarrow> bool" where
  "hasNeighbor h tile index =
     list_ex (\<lambda>(other, otherIndex). isNeighbor tile index other otherIndex)
       (zip h [0..<length h])"

definition findIsolatedTiles :: "Tile list \<Rightarrow> Tile list" where
  "findIsolatedTiles h =
     map fst (filter (\<lambda>(tile, index). \<not> hasNeighbor h tile index) (zip h [0..<length h]))"

text \<open>
  The isolation test as the specification words it. A tile is well typed when its value
  is a number exactly if its suit is a numbered suit, as the data model has it and as
  every tile of the deck is.
\<close>

definition numberedSuit :: "TileSuit \<Rightarrow> bool" where
  "numberedSuit s = (s = Bamboo \<or> s = Character \<or> s = Dot)"

definition wellTyped :: "Tile \<Rightarrow> bool" where
  "wellTyped tile =
     (case tile_value tile of
        Some (NumV n) \<Rightarrow> numberedSuit (suit tile)
      | _ \<Rightarrow> \<not> numberedSuit (suit tile))"

definition numberOf :: "Tile \<Rightarrow> int" where
  "numberOf tile = (case tile_value tile of Some (NumV n) \<Rightarrow> int n | _ \<Rightarrow> 0)"

definition near :: "Tile \<Rightarrow> Tile \<Rightarrow> bool" where
  "near tile other =
     (suit tile = suit other \<and>
      (if numberedSuit (suit tile) then \<bar>numberOf tile - numberOf other\<bar> \<le> 2
       else tile_value tile = tile_value other))"

definition isolatedAt :: "Tile list \<Rightarrow> nat \<Rightarrow> bool" where
  "isolatedAt h i = (\<not> (\<exists>j \<in> {0..<length h}. j \<noteq> i \<and> near (h ! i) (h ! j)))"

subsection \<open>Opponent move selection\<close>

text \<open>
  The random source. \<open>Math.random()\<close> returns a double \<open>r\<close> with \<open>0 \<le> r < 1\<close>, and the
  code reads it only as \<open>Math.floor(r * n)\<close> for the length \<open>n\<close> of an array. The product
  is a product of doubles, rounded, and the model does not compute it: a draw is given by
  the index it yields for each length, \<open>randomIndex r n\<close> being \<open>Math.floor(r * n)\<close>. For
  the draws that \<open>Math.random()\<close> can return this index is 0 for \<open>n = 1\<close>, and lies
  between 0 and \<open>n - 1\<close> for every \<open>n > 0\<close>. \<open>g k\<close> is the draw of the \<open>k\<close>-th coming call;
  a call takes \<open>g 0\<close> and leaves the rest.
\<close>

type_synonym draw = "nat \<Rightarrow> int"

type_synonym rng = "nat \<Rightarrow> draw"

definition nextRandom :: "rng \<Rightarrow> draw \<times> rng" where
  "nextRandom g = (g 0, \<lambda>k. g (Suc k))"

definition randomIndex :: "draw \<Rightarrow> nat \<Rightarrow> int" where
  "randomIndex r n = r n"

text \<open>An array read \<open>xs[i]\<close>, which is \<open>undefined\<close> out of range.\<close>

definition arrayGet :: "'a list \<Rightarrow> int \<Rightarrow> 'a option" where
  "arrayGet xs i = (if 0 \<le> i \<and> i < int (length xs) then Some (xs ! nat i) else None)"

definition randomTile :: "rng \<Rightarrow> Tile list \<Rightarrow> Tile option \<times> rng" where
  "randomTile g h = (case nextRandom g of (r, g') \<Rightarrow> (arrayGet h (randomIndex r (length h)), g'))"

text \<open>
  \<open>findStrategicDiscard\<close> fills a map of counts as \<open>checkWin\<close> does, and does not read
  it.
\<close>

definition findStrategicDiscard :: "rng \<Rightarrow> Tile list \<Rightarrow> Tile option \<times> rng" where
  "findStrategicDiscard g h =
     (let counts = tileCounts h;
          isolated = findIsolatedTiles h
      in if length isolated > 0 then (arrayGet isolated 0, g)
         else randomTile g h)"

text \<open>
  The difficulty is the route parameter, any string at run time:
  \<open>(params.difficulty as Difficulty) || 'medium'\<close> replaces an absent or empty one.
\<close>

definition difficultyOf :: "string option \<Rightarrow> string" where
  "difficultyOf param =
     (case param of None \<Rightarrow> ''medium'' | Some d \<Rightarrow> if d = [] then ''medium'' else d)"

definition selectTileToDiscard :: "rng \<Rightarrow> Tile list \<Rightarrow> string \<Rightarrow> Tile option \<times> rng" where
  "selectTileToDiscard g h difficulty =
     (if length h = 0 then (None, g)
      else if difficulty = ''easy'' then randomTile g h
      else if difficulty = ''medium'' then
        (let isolatedTiles = findIsolatedTiles h
         in if length isolatedTiles > 0 then randomTile g isolatedTiles
            else randomTile g h)
      else if difficulty = ''hard'' then
        (case findStrategicDiscard g h of
           (Some strategicTile, g') \<Rightarrow> (Some strategicTile, g')
         | (None, g') \<Rightarrow> randomTile g' h)
      else (arrayGet h 0, g))"

subsection \<open>The state of the screen and its operations\<close>

datatype Phase = Setup | Playing | Finished

record Game =
  gameState :: Phase
  players :: "Player list"
  currentPlayerIndex :: nat
  drawPile :: "Tile list"
  selectedTile :: "string option"
  lastDrawnTile :: "Tile option"
  winner :: "string option"

text \<open>
  The seven \<open>useState\<close> variables of the screen are the fields of \<open>Game\<close>. An
  operation takes the state and returns the new one: each updater function passed to a
  setter is applied once, to the latest state, in the order of the calls. What an
  operation does besides setting the state is returned with it: an alert (title,
  message), a line on the console, and \<open>setTimeout(() => drawTile(i), ms)\<close>. Reading a
  field of \<open>undefined\<close>, as \<open>newPlayers[playerIndex].hand\<close> does for an index that is
  out of range, throws a \<open>TypeError\<close>.
\<close>

datatype Effect = Alert string string | ConsoleLog string | ScheduleDraw nat nat

datatype error = TypeError

definition drawTile :: "nat \<Rightarrow> Game \<Rightarrow> error + (Game \<times> Effect list)" where
  "drawTile playerIndex s =
     (case drawPile s of
        [] \<Rightarrow>
          Inr (s\<lparr>gameState := Finished\<rparr>,
               [Alert ''Game Over'' ''No more tiles to draw. Game ends in a draw.''])
      | drawnTile # newDrawPile \<Rightarrow>
          if playerIndex \<ge> length (players s) then Inl TypeError
          else
            (let p = players s ! playerIndex;
                 p' = p\<lparr>hand := sortTiles (hand p @ [drawnTile])\<rparr>;
                 s1 = s\<lparr>players := (players s)[playerIndex := p']\<rparr>;
                 s2 = (if checkWin (hand p')
                       then s1\<lparr>winner := Some (name p'), gameState := Finished\<rparr>
                       else s1);
                 alerts = (if checkWin (hand p')
                           then [Alert ''Winner!'' (name p' @ '' wins!'')] else [])
             in Inr (s2\<lparr>lastDrawnTile := Some drawnTile, drawPile := newDrawPile\<rparr>,
                     ConsoleLog (name p' @ '' drew a tile'') # alerts)))"

text \<open>\<open>hand.findIndex(t => t.id === tileId)\<close>, with \<open>None\<close> for \<open>-1\<close>.\<close>

fun findIndex :: "string \<Rightarrow> Tile list \<Rightarrow> nat option" where
  "findIndex tileId [] = None"
| "findIndex tileId (t # ts) =
     (if tile_id t = tileId then Some 0 else map_option Suc (findIndex tileId ts))"

definition discardTile :: "nat \<Rightarrow> string \<Rightarrow> Game \<Rightarrow> error + (Game \<times> Effect list)" where
  "discardTile playerIndex tileId s =
     (if playerIndex \<ge> length (players s) then Inl TypeError
      else
        (let player = players s ! playerIndex
         in case findIndex tileId (hand player) of
              None \<Rightarrow> Inr (s, [])
            | Some tileIndex \<Rightarrow>
                (let discardedTile = hand player ! tileIndex;
                     player' = player\<lparr>hand := take tileIndex (hand player)
                                                @ drop (Suc tileIndex) (hand player),
                                       discarded := discarded player @ [discardedTile]\<rparr>;
                     newPlayers = (players s)[playerIndex := player'];
                     nextPlayerIndex = (playerIndex + 1) mod length newPlayers
                 in Inr (s\<lparr>players := newPlayers, selectedTile := None,
                            lastDrawnTile := None, currentPlayerIndex := nextPlayerIndex\<rparr>,
                         [ConsoleLog (name player' @ '' discarded a tile''),
                          ScheduleDraw nextPlayerIndex 500]))))"

text \<open>\<open>xs.slice(a, b)\<close> for \<open>0 \<le> a \<le> b\<close>, and \<open>xs.slice(a)\<close> as \<open>drop a xs\<close>.\<close>

definition slice :: "'a list \<Rightarrow> nat \<Rightarrow> nat \<Rightarrow> 'a list" where
  "slice xs a b = take (b - a) (drop a xs)"

definition newPlayer :: "string \<Rightarrow> string \<Rightarrow> Tile list \<Rightarrow> bool \<Rightarrow> Player" where
  "newPlayer i n h ai = \<lparr>player_id = i, name = n, hand = h, discarded = [], isAI = ai\<rparr>"

definition dealPlayers :: "Tile list \<Rightarrow> Player list" where
  "dealPlayers deck =
     [newPlayer ''player'' ''You'' (sortTiles (slice deck 0 13)) False,
      newPlayer ''ai1'' ''AI Bot 1'' (sortTiles (slice deck 13 26)) True,
      newPlayer ''ai2'' ''AI Bot 2'' (sortTiles (slice deck 26 39)) True,
      newPlayer ''ai3'' ''AI Bot 3'' (sortTiles (slice deck 39 52)) True]"

definition initializeGame ::
  "(Tile list \<Rightarrow> Tile list) \<Rightarrow> string \<Rightarrow> Game \<Rightarrow> Game \<times> Effect list" where
  "initializeGame shuffle difficulty s =
     (let deck = createTileDeck shuffle
      in (s\<lparr>players := dealPlayers deck, drawPile := drop 52 deck, gameState := Playing,
            currentPlayerIndex := 0, winner := None\<rparr>,
          [ConsoleLog (''Initializing Mahjong game with difficulty: '' @ difficulty)]))"

text \<open>The state the screen starts from, the initial values of its \<open>useState\<close> hooks.\<close>

definition initialGame :: Game where
  "initialGame =
     \<lparr>gameState = Setup, players = [], currentPlayerIndex = 0, drawPile = [],
      selectedTile = None, lastDrawnTile = None, winner = None\<rparr>"

subsection \<open>Example values\<close>

definition numberTile :: "string \<Rightarrow> TileSuit \<Rightarrow> nat \<Rightarrow> Tile" where
  "numberTile i s n = \<lparr>tile_id = i, suit = s, tile_value = Some (NumV n), isSelected = None\<rparr>"

definition dragonTile :: "string \<Rightarrow> DragonValue \<Rightarrow> Tile" where
  "dragonTile i d = \<lparr>tile_id = i, suit = Dragon, tile_value = Some (DragonV d), isSelected = None\<rparr>"

text \<open>
  Fourteen tiles that are four runs and a pair (bamboo 1 to 9, character 1 to 3, two dot
  5), and fourteen tiles with three triplets.
\<close>

definition runsHand :: "Tile list" where
  "runsHand =
     [numberTile ''bamboo-1-0'' Bamboo 1, numberTile ''bamboo-2-4'' Bamboo 2,
      numberTile ''bamboo-3-8'' Bamboo 3, numberTile ''bamboo-4-12'' Bamboo 4,
      numberTile ''bamboo-5-16'' Bamboo 5, numberTile ''bamboo-6-20'' Bamboo 6,
      numberTile ''bamboo-7-24'' Bamboo 7, numberTile ''bamboo-8-28'' Bamboo 8,
      numberTile ''bamboo-9-32'' Bamboo 9, numberTile ''character-1-36'' Character 1,
      numberTile ''character-2-40'' Character 2, numberTile ''character-3-44'' Character 3,
      numberTile ''dot-5-88'' Dot 5, numberTile ''dot-5-89'' Dot 5]"

definition tripletsHand :: "Tile list" where
  "tripletsHand =
     [numberTile ''bamboo-1-0'' Bamboo 1, numberTile ''bamboo-1-1'' Bamboo 1,
      numberTile ''bamboo-1-2'' Bamboo 1, numberTile ''bamboo-4-12'' Bamboo 4,
      numberTile ''character-2-40'' Character 2, numberTile ''character-2-41'' Character 2,
      numberTile ''character-2-42'' Character 2, numberTile ''character-9-68'' Character 9,
      numberTile ''dot-3-80'' Dot 3, numberTile ''dot-6-92'' Dot 6,
      dragonTile ''dragon-red-124'' Red, dragonTile ''dragon-red-125'' Red,
      dragonTile ''dragon-red-126'' Red, dragonTile ''dragon-white-132'' White]"

text \<open>Fifteen tiles: five triplets.\<close>

definition fiveTripletsHand :: "Tile list" where
  "fiveTripletsHand =
     [numberTile ''bamboo-1-0'' Bamboo 1, numberTile ''bamboo-1-1'' Bamboo 1,
      numberTile ''bamboo-1-2'' Bamboo 1, numberTile ''character-2-40'' Character 2,
      numberTile ''character-2-41'' Character 2, numberTile ''character-2-42'' Character 2,
      numberTile ''dot-3-80'' Dot 3, numberTile ''dot-3-81'' Dot 3,
      numberTile ''dot-3-82'' Dot 3, dragonTile ''dragon-red-124'' Red,
      dragonTile ''dragon-red-125'' Red, dragonTile ''dragon-red-126'' Red,
      dragonTile ''dragon-white-132'' White, dragonTile ''dragon-white-133'' White,
      dragonTile ''dragon-white-134'' White]"

definition exampleHand :: "Tile list" where
  "exampleHand =
     [numberTile ''bamboo-1-0'' Bamboo 1, numberTile ''bamboo-2-4'' Bamboo 2,
      dragonTile ''dragon-red-124'' Red]"

text \<open>A hand with two isolated tiles, the dot 7 and the red dragon.\<close>

definition twoIsolatedHand :: "Tile list" where
  "twoIsolatedHand =
     [numberTile ''bamboo-1-0'' Bamboo 1, numberTile ''bamboo-2-4'' Bamboo 2,
      numberTile ''dot-7-98'' Dot 7, dragonTile ''dragon-red-124'' Red]"

text \<open>
  The random source whose every call returns 0, so that every index drawn is
  \<open>Math.floor(0 * n) = 0\<close>.
\<close>

definition zeroRandom :: rng where
  "zeroRandom = (\<lambda>k n. 0)"

text \<open>A game in play: four players with two tiles each, and one tile left to draw.\<close>

definition exampleGame :: Game where
  "exampleGame =
     \<lparr>gameState = Playing,
      players =
        [newPlayer ''player'' ''You''
           [numberTile ''bamboo-1-0'' Bamboo 1, numberTile ''dot-7-98'' Dot 7] False,
         newPlayer ''ai1'' ''AI Bot 1''
           [numberTile ''bamboo-1-1'' Bamboo 1, numberTile ''bamboo-2-4'' Bamboo 2] True,
         newPlayer ''ai2'' ''AI Bot 2''
           [numberTile ''character-3-44'' Character 3, dragonTile ''dragon-red-124'' Red] True,
         newPlayer ''ai3'' ''AI Bot 3''
           [numberTile ''dot-1-72'' Dot 1, numberTile ''dot-9-104'' Dot 9] True],
      currentPlayerIndex = 0,
      drawPile = [numberTile ''bamboo-5-16'' Bamboo 5],
      selectedTile = None, lastDrawnTile = None, winner = None\<rparr>"

text \<open>
  A game whose draw pile is used up: every player holds tiles and has discarded one, the
  third player is to move, a tile is selected, and the last tile drawn is remembered.
\<close>

definition exhaustedGame :: Game where
  "exhaustedGame =
     \<lparr>gameState = Playing,
      players =
        [\<lparr>player_id = ''player'', name = ''You'',
          hand = [numberTile ''bamboo-1-0'' Bamboo 1, numberTile ''dot-7-98'' Dot 7],
          discarded = [numberTile ''character-5-52'' Character 5], isAI = False\<rparr>,
         \<lparr>player_id = ''ai1'', name = ''AI Bot 1'',
          hand = [numberTile ''bamboo-1-1'' Bamboo 1, numberTile ''bamboo-2-4'' Bamboo 2],
          discarded = [dragonTile ''dragon-green-128'' Green], isAI = True\<rparr>,
         \<lparr>player_id = ''ai2'', name = ''AI Bot 2'',
          hand = [numberTile ''bamboo-5-16'' Bamboo 5, numberTile ''character-3-44'' Character 3,
                  dragonTile ''dragon-red-124'' Red],
          discarded = [numberTile ''dot-4-84'' Dot 4], isAI = True\<rparr>,
         \<lparr>player_id = ''ai3'', name = ''AI Bot 3'',
          hand = [numberTile ''dot-1-72'' Dot 1, numberTile ''dot-9-104'' Dot 9],
          discarded = [numberTile ''bamboo-8-28'' Bamboo 8], isAI = True\<rparr>],
      currentPlayerIndex = 2,
      drawPile = [],
      selectedTile = Some ''dot-7-98'',
      lastDrawnTile = Some (numberTile ''bamboo-5-16'' Bamboo 5),
      winner = None\<rparr>"

section \<open>Properties\<close>

text \<open>
  Claim C10: a hand whose size is not exactly 14 is never a winning hand, whatever it
  contains.
\<close>

theorem checkWin_not_14: "length h \<noteq> 14 \<Longrightarrow> checkWin h = False"
  by (simp add: checkWin_def)

text \<open>Fifteen tiles in five triplets: the counting loop finds five triplets.\<close>

lemma fiveTripletsHand_groups:
  "groupsAtLeast 3 fiveTripletsHand = 5 \<and> countGroups (tileCounts fiveTripletsHand) = (5, 5)"
  by code_simp

theorem checkWin_not_14_witness:
  "length fiveTripletsHand = 15 \<and> length fiveTripletsHand \<noteq> 14 \<and>
   groupsAtLeast 3 fiveTripletsHand = 5 \<and>
   countGroups (tileCounts fiveTripletsHand) = (5, 5) \<and>
   checkWin fiveTripletsHand = False"
proof -
  have l: "length fiveTripletsHand = 15" by (simp add: fiveTripletsHand_def)
  then have n: "length fiveTripletsHand \<noteq> 14" by simp
  from checkWin_not_14 [OF n] l n fiveTripletsHand_groups show ?thesis by simp
qed

subsection \<open>The key of a tile determines its suit and value\<close>

lemma of_char_digitChar: "d < 10 \<Longrightarrow> of_char (digitChar d) = 48 + d"
  by (simp add: digitChar_def)

lemma digitChar_inj: "a < 10 \<Longrightarrow> b < 10 \<Longrightarrow> digitChar a = digitChar b \<Longrightarrow> a = b"
  using of_char_digitChar[of a] of_char_digitChar[of b] by (metis add_left_cancel)

lemma numberString_nonempty: "numberString n \<noteq> []"
  by (subst numberString.simps) simp

lemma numberString_digits: "c \<in> set (numberString n) \<Longrightarrow> (of_char c :: nat) < 58"
proof (induction n rule: numberString.induct)
  case (1 n)
  show ?case
  proof (cases "n < 10")
    case True
    with "1.prems" have "c = digitChar n" by (subst (asm) numberString.simps) simp
    with True show ?thesis by (simp add: of_char_digitChar)
  next
    case False
    with "1.prems" have "c \<in> set (numberString (n div 10)) \<or> c = digitChar (n mod 10)"
      by (subst (asm) numberString.simps) auto
    then show ?thesis
    proof
      assume "c \<in> set (numberString (n div 10))"
      with "1.IH"[OF False] show ?thesis .
    next
      assume "c = digitChar (n mod 10)"
      then show ?thesis by (simp add: of_char_digitChar)
    qed
  qed
qed

lemma numberString_inj: "numberString a = numberString b \<Longrightarrow> a = b"
proof (induction a arbitrary: b rule: numberString.induct)
  case (1 n)
  have sn: "numberString n = (if n < 10 then [digitChar n]
      else numberString (n div 10) @ [digitChar (n mod 10)])"
    by (rule numberString.simps)
  have sb: "numberString b = (if b < 10 then [digitChar b]
      else numberString (b div 10) @ [digitChar (b mod 10)])"
    by (rule numberString.simps)
  show ?case
  proof (cases "n < 10")
    case True
    note n10 = this
    show ?thesis
    proof (cases "b < 10")
      case True
      with n10 "1.prems" sn sb show ?thesis by (auto dest: digitChar_inj)
    next
      case False
      with n10 "1.prems" sn sb have "[digitChar n] = numberString (b div 10) @ [digitChar (b mod 10)]"
        by simp
      then have "numberString (b div 10) = []" by (simp add: Cons_eq_append_conv)
      with numberString_nonempty show ?thesis by blast
    qed
  next
    case False
    note n10 = this
    show ?thesis
    proof (cases "b < 10")
      case True
      with n10 "1.prems" sn sb have "numberString (n div 10) @ [digitChar (n mod 10)] = [digitChar b]"
        by simp
      then have "numberString (n div 10) = []" by (simp add: append_eq_Cons_conv)
      with numberString_nonempty show ?thesis by blast
    next
      case False
      with n10 "1.prems" sn sb have e: "numberString (n div 10) = numberString (b div 10)"
        "digitChar (n mod 10) = digitChar (b mod 10)" by simp_all
      from "1.IH"[OF n10 e(1)] have "n div 10 = b div 10" .
      moreover from e(2) have "n mod 10 = b mod 10" by (intro digitChar_inj) simp_all
      ultimately show ?thesis by (metis div_mult_mod_eq)
    qed
  qed
qed

lemma numberString_all_digits:
  "numberString n = w \<Longrightarrow> list_all (\<lambda>c. (of_char c :: nat) < 58) w"
  using numberString_digits[of _ n] by (auto simp: list_all_iff)

lemma windString_inj: "windString a = windString b \<Longrightarrow> a = b"
  by (cases a; cases b) simp_all

lemma dragonString_inj: "dragonString a = dragonString b \<Longrightarrow> a = b"
  by (cases a; cases b) simp_all

lemma wind_not_dragon: "windString a \<noteq> dragonString b"
  by (cases a; cases b) simp_all

lemma wind_not_undefined: "windString a \<noteq> ''undefined''"
  by (cases a) simp_all

lemma dragon_not_undefined: "dragonString a \<noteq> ''undefined''"
  by (cases a) simp_all

lemma number_not_undefined: "numberString n \<noteq> ''undefined''"
  using numberString_all_digits[of n "''undefined''"] by auto

lemma number_not_wind: "numberString n \<noteq> windString a"
  using numberString_all_digits[of n "windString a"] by (cases a) auto

lemma number_not_dragon: "numberString n \<noteq> dragonString a"
  using numberString_all_digits[of n "dragonString a"] by (cases a) auto

lemmas valueString_distinct =
  wind_not_dragon wind_not_undefined dragon_not_undefined
  number_not_undefined number_not_wind number_not_dragon
  wind_not_dragon[THEN not_sym] wind_not_undefined[THEN not_sym]
  dragon_not_undefined[THEN not_sym] number_not_undefined[THEN not_sym]
  number_not_wind[THEN not_sym] number_not_dragon[THEN not_sym]

lemma valueString_inj: "valueString v = valueString w \<Longrightarrow> v = w"
  by (cases v rule: valueString.cases; cases w rule: valueString.cases)
     (auto simp: valueString_distinct dest: numberString_inj windString_inj dragonString_inj)

lemma suit_dash_inj:
  "suitString s @ ''-'' @ x = suitString t @ ''-'' @ y \<Longrightarrow> s = t \<and> x = y"
  by (cases s; cases t) simp_all

lemma tileKey_eq_iff: "tileKey a = tileKey b \<longleftrightarrow> suitValue a = suitValue b"
proof
  assume "tileKey a = tileKey b"
  then have "suit a = suit b \<and> valueString (tile_value a) = valueString (tile_value b)"
    unfolding tileKey_def by (rule suit_dash_inj)
  then show "suitValue a = suitValue b"
    by (auto simp: suitValue_def dest: valueString_inj)
next
  assume "suitValue a = suitValue b"
  then show "tileKey a = tileKey b" by (simp add: suitValue_def tileKey_def)
qed

subsection \<open>The win predicate\<close>

lemma mapGet_map_of: "mapGet m key = map_of m key"
  by (induction m) auto

lemma map_of_mapSet: "map_of (mapSet m key v) = (map_of m)(key \<mapsto> v)"
  by (induction m) (auto simp: fun_eq_iff)

lemma map_fst_mapSet:
  "map fst (mapSet m key v) = (if key \<in> set (map fst m) then map fst m else map fst m @ [key])"
  by (induction m) (force+)

lemma keys_mapSet: "set (map fst (mapSet m key v)) = insert key (set (map fst m))"
  unfolding map_fst_mapSet by auto

lemma distinct_mapSet: "distinct (map fst m) \<Longrightarrow> distinct (map fst (mapSet m key v))"
  unfolding map_fst_mapSet by auto

lemma counted_countKey:
  assumes "counted m ks"
  shows "counted (countKey m key) (ks @ [key])"
proof -
  from assms have a: "distinct (map fst m)" "set (map fst m) = set ks"
    "\<forall>k \<in> set ks. map_of m k = Some (count_list ks k)"
    by (simp_all add: counted_def)
  have d: "distinct (map fst (countKey m key))"
    unfolding countKey_def using a(1) by (rule distinct_mapSet)
  have s: "set (map fst (countKey m key)) = set (ks @ [key])"
    unfolding countKey_def keys_mapSet using a(2) by simp
  have none: "map_of m key = None" if "key \<notin> set ks"
    using that a(2) by (simp add: map_of_eq_None_iff)
  have c: "map_of (countKey m key) k = Some (count_list (ks @ [key]) k)"
    if k: "k \<in> set (ks @ [key])" for k
  proof (cases "k = key")
    case True
    show ?thesis
    proof (cases "key \<in> set ks")
      case True
      with a(3) \<open>k = key\<close> show ?thesis
        by (simp add: countKey_def map_of_mapSet mapGet_map_of)
    next
      case False
      with none \<open>k = key\<close> show ?thesis
        by (simp add: countKey_def map_of_mapSet mapGet_map_of)
    qed
  next
    case False
    with k have "k \<in> set ks" by simp
    with a(3) False show ?thesis
      by (simp add: countKey_def map_of_mapSet)
  qed
  show ?thesis unfolding counted_def using d s c by blast
qed

lemma counted_fold:
  "counted m ks \<Longrightarrow> counted (fold (\<lambda>key m. countKey m key) xs m) (ks @ xs)"
proof (induction xs arbitrary: m ks)
  case Nil
  then show ?case by simp
next
  case (Cons x xs)
  from Cons.IH[OF counted_countKey[OF Cons.prems, of x]] show ?case by simp
qed

lemma counted_tileCounts: "counted (tileCounts h) (map tileKey h)"
proof -
  have e: "tileCounts h = fold (\<lambda>key m. countKey m key) (map tileKey h) []"
    by (simp add: tileCounts_def fold_map comp_def)
  have "counted [] []" by (simp add: counted_def)
  from counted_fold[OF this, of "map tileKey h"] show ?thesis by (simp add: e)
qed

lemma countGroups_fold:
  "fold (\<lambda>(k, count) (pairs, triplets).
             (if count \<ge> 2 then pairs + 1 else pairs,
              if count \<ge> 3 then triplets + 1 else triplets)) m (p, t)
   = (p + length (filter (\<lambda>(k, c). 2 \<le> c) m), t + length (filter (\<lambda>(k, c). 3 \<le> (c::nat)) m))"
  by (induction m arbitrary: p t) auto

lemma countGroups_filter:
  "countGroups m = (length (filter (\<lambda>(k, c). 2 \<le> c) m), length (filter (\<lambda>(k, c). 3 \<le> c) m))"
  unfolding countGroups_def countGroups_fold by simp

lemma length_filter_counts:
  assumes "counted m ks"
  shows "length (filter (\<lambda>(k, c). n \<le> c) m) = card {k \<in> set ks. n \<le> count_list ks k}"
proof -
  from assms have assms: "distinct (map fst m)" "set (map fst m) = set ks"
    "\<forall>k \<in> set ks. map_of m k = Some (count_list ks k)"
    by (simp_all add: counted_def)
  let ?f = "filter (\<lambda>(k, c). n \<le> c) m"
  have d: "distinct (map fst ?f)" using assms(1) by (rule distinct_map_filter)
  have "set (map fst ?f) = {k \<in> set ks. n \<le> count_list ks k}"
  proof (intro set_eqI iffI)
    fix k assume "k \<in> set (map fst ?f)"
    then obtain c where kc: "(k, c) \<in> set m" "n \<le> c" by auto
    then have "map_of m k = Some c" using assms(1) by simp
    moreover from kc have "k \<in> set ks" using assms(2) by force
    ultimately show "k \<in> {k \<in> set ks. n \<le> count_list ks k}" using assms(3) kc(2) by auto
  next
    fix k assume "k \<in> {k \<in> set ks. n \<le> count_list ks k}"
    then have k: "k \<in> set ks" "n \<le> count_list ks k" by auto
    with assms(3) have "map_of m k = Some (count_list ks k)" by simp
    then have "(k, count_list ks k) \<in> set m" by (rule map_of_SomeD)
    with k(2) have "(k, count_list ks k) \<in> set ?f" by simp
    then show "k \<in> set (map fst ?f)" by force
  qed
  then have "card {k \<in> set ks. n \<le> count_list ks k} = length (map fst ?f)"
    using distinct_card[OF d] by simp
  then show ?thesis by simp
qed

lemma groupsAtLeast_card:
  "groupsAtLeast n h
     = card {p \<in> set (map suitValue h). n \<le> count_list (map suitValue h) p}"
proof -
  let ?sv = "map suitValue h"
  let ?f = "filter (\<lambda>k. n \<le> count_list ?sv k) (remdups ?sv)"
  have "distinct ?f" by simp
  from distinct_card[OF this] have "length ?f = card (set ?f)" by simp
  also have "set ?f = {p \<in> set ?sv. n \<le> count_list ?sv p}" by auto
  finally show ?thesis by (simp add: groupsAtLeast_def)
qed

lemma count_list_map_inj:
  assumes "inj f"
  shows "count_list (map f xs) (f x) = count_list xs x"
  using assms by (induction xs) (auto dest: injD)

lemma key_groups_card:
  "card {k \<in> set (map tileKey h). n \<le> count_list (map tileKey h) k}
     = card {p \<in> set (map suitValue h). n \<le> count_list (map suitValue h) p}"
proof -
  define keyOf :: "TileSuit \<times> TileVal option \<Rightarrow> string"
    where "keyOf = (\<lambda>(s, v). suitString s @ ''-'' @ valueString v)"
  have inj: "inj keyOf"
  proof (rule injI)
    fix p q assume e: "keyOf p = keyOf q"
    obtain s v where p: "p = (s, v)" by (cases p)
    obtain t w where q: "q = (t, w)" by (cases q)
    from e have "s = t \<and> valueString v = valueString w"
      unfolding keyOf_def p q by (simp only: prod.case) (rule suit_dash_inj)
    then show "p = q" by (auto simp: p q dest: valueString_inj)
  qed
  have tk: "map tileKey h = map keyOf (map suitValue h)"
    by (simp add: tileKey_def keyOf_def suitValue_def)
  define sv where "sv = map suitValue h"
  have "{k \<in> set (map keyOf sv). n \<le> count_list (map keyOf sv) k}
      = keyOf ` {p \<in> set sv. n \<le> count_list sv p}"
    by (auto simp: count_list_map_inj[OF inj])
  moreover have "card (keyOf ` {p \<in> set sv. n \<le> count_list sv p})
      = card {p \<in> set sv. n \<le> count_list sv p}"
    by (rule card_image) (use inj in \<open>auto intro: inj_on_subset\<close>)
  ultimately show ?thesis unfolding tk sv_def by (simp only:)
qed

lemma countGroups_tileCounts:
  "countGroups (tileCounts h) = (groupsAtLeast 2 h, groupsAtLeast 3 h)"
proof -
  show ?thesis
    unfolding countGroups_filter length_filter_counts[OF counted_tileCounts]
      key_groups_card groupsAtLeast_card
    by (rule refl)
qed

lemma runsHand_groups: "groupsAtLeast 3 runsHand = 0 \<and> groupsAtLeast 2 runsHand = 1"
  by code_simp

lemma tripletsHand_groups: "groupsAtLeast 3 tripletsHand = 3"
  by code_simp

text \<open>
  Claim C1: for a hand of 14 tiles, \<open>checkWin\<close> holds exactly if at least 3 distinct
  (suit, value) combinations occur 3 times or more, or at least 5 occur twice or more.
  Only groups of identical tiles count: a hand of four runs and a pair does not win.
\<close>

theorem checkWin_groups:
  "(length h = 14 \<longrightarrow> checkWin h = (groupsAtLeast 3 h \<ge> 3 \<or> groupsAtLeast 2 h \<ge> 5)) \<and>
   length runsHand = 14 \<and> checkWin runsHand = False"
proof (intro conjI impI)
  show "checkWin h = (groupsAtLeast 3 h \<ge> 3 \<or> groupsAtLeast 2 h \<ge> 5)" if "length h = 14"
    using that by (simp add: checkWin_def countGroups_tileCounts)
  show l: "length runsHand = 14" by (simp add: runsHand_def)
  show "checkWin runsHand = False"
    using l runsHand_groups by (simp add: checkWin_def countGroups_tileCounts)
qed

theorem checkWin_groups_witness:
  "length tripletsHand = 14 \<and> groupsAtLeast 3 tripletsHand = 3 \<and> checkWin tripletsHand = True"
proof -
  have l: "length tripletsHand = 14" by (simp add: tripletsHand_def)
  from checkWin_groups [of tripletsHand] l tripletsHand_groups show ?thesis by simp
qed

text \<open>The same two hands, evaluated on the code as it is.\<close>

lemma checkWin_examples: "checkWin tripletsHand = True \<and> checkWin runsHand = False"
  by code_simp

subsection \<open>Drawing and discarding\<close>

lemma findIndex_None: "findIndex tileId ts = None \<longleftrightarrow> tileId \<notin> tile_id ` set ts"
  by (induction ts) auto

lemma findIndex_Some:
  "findIndex tileId ts = Some i \<Longrightarrow>
     i < length ts \<and> tile_id (ts ! i) = tileId \<and> (\<forall>j<i. tile_id (ts ! j) \<noteq> tileId)"
proof (induction ts arbitrary: i)
  case Nil
  then show ?case by simp
next
  case (Cons t ts)
  show ?case
  proof (cases "tile_id t = tileId")
    case True
    with Cons.prems show ?thesis by simp
  next
    case False
    with Cons.prems obtain k where k: "findIndex tileId ts = Some k" "i = Suc k"
      by auto
    from Cons.IH[OF k(1)] False k(2) show ?thesis
      by (auto simp: nth_Cons split: nat.splits)
  qed
qed

lemma length_insertTile: "length (insertTile x ys) = Suc (length ys)"
  by (induction ys) auto

lemma length_sortTiles: "length (sortTiles xs) = length xs"
  unfolding sortTiles_def by (induction xs) (auto simp: length_insertTile)

text \<open>
  Claim C6: a draw from an empty draw pile sets the phase to finished and changes nothing
  else: it sets no winner, and the hands, the discard piles, the draw pile and the
  last-drawn tile are as before. Drawing again, for any player, leaves that state as it
  is. (The alert is shown at each call.)
\<close>

theorem drawTile_empty_pile:
  assumes "drawPile s = []"
  shows "\<exists>s' e. drawTile i s = Inr (s', e) \<and> s' = s\<lparr>gameState := Finished\<rparr>
           \<and> gameState s' = Finished \<and> winner s' = winner s \<and> players s' = players s
           \<and> drawPile s' = drawPile s \<and> lastDrawnTile s' = lastDrawnTile s
           \<and> (\<forall>j. drawTile j s' = Inr (s', e))"
  using assms by (simp add: drawTile_def)

theorem drawTile_empty_pile_witness:
  "drawPile exhaustedGame = [] \<and>
   drawTile 2 exhaustedGame
     = Inr (exhaustedGame\<lparr>gameState := Finished\<rparr>,
            [Alert ''Game Over'' ''No more tiles to draw. Game ends in a draw.'']) \<and>
   gameState exhaustedGame = Playing \<and>
   winner (exhaustedGame\<lparr>gameState := Finished\<rparr>) = None \<and>
   players (exhaustedGame\<lparr>gameState := Finished\<rparr>) = players exhaustedGame \<and>
   length (hand (players exhaustedGame ! 2)) = 3 \<and>
   length (discarded (players exhaustedGame ! 2)) = 1 \<and>
   lastDrawnTile (exhaustedGame\<lparr>gameState := Finished\<rparr>)
     = Some (numberTile ''bamboo-5-16'' Bamboo 5) \<and>
   drawTile 3 (exhaustedGame\<lparr>gameState := Finished\<rparr>)
     = Inr (exhaustedGame\<lparr>gameState := Finished\<rparr>,
            [Alert ''Game Over'' ''No more tiles to draw. Game ends in a draw.''])"
proof -
  have h: "drawPile exhaustedGame = []" by (simp add: exhaustedGame_def)
  from drawTile_empty_pile [OF h, of 2]
  obtain s' e where a: "drawTile 2 exhaustedGame = Inr (s', e)"
    "s' = exhaustedGame\<lparr>gameState := Finished\<rparr>" "\<forall>j. drawTile j s' = Inr (s', e)"
    by blast
  have e: "e = [Alert ''Game Over'' ''No more tiles to draw. Game ends in a draw.'']"
    using a(1) h by (simp add: drawTile_def)
  have f: "gameState exhaustedGame = Playing \<and>
      winner (exhaustedGame\<lparr>gameState := Finished\<rparr>) = None \<and>
      players (exhaustedGame\<lparr>gameState := Finished\<rparr>) = players exhaustedGame \<and>
      length (hand (players exhaustedGame ! 2)) = 3 \<and>
      length (discarded (players exhaustedGame ! 2)) = 1 \<and>
      lastDrawnTile (exhaustedGame\<lparr>gameState := Finished\<rparr>)
        = Some (numberTile ''bamboo-5-16'' Bamboo 5)"
    by (simp add: exhaustedGame_def)
  from a(3) have "drawTile 3 s' = Inr (s', e)" by blast
  with a(1,2) e h f show ?thesis by simp
qed

text \<open>
  Claim C7: discarding a tile identifier that the indicated player's hand does not hold
  changes nothing: the state is returned as it is (hands, discard piles, current player,
  selected and last-drawn tile), nothing is logged or scheduled, and no error is raised.
\<close>

theorem discardTile_absent:
  assumes "playerIndex < length (players s)"
    and "tileId \<notin> tile_id ` set (hand (players s ! playerIndex))"
  shows "discardTile playerIndex tileId s = Inr (s, [])"
  using assms by (simp add: discardTile_def findIndex_None[THEN iffD2])

theorem discardTile_absent_witness:
  "1 < length (players exampleGame) \<and>
   ''dot-9-104'' \<notin> tile_id ` set (hand (players exampleGame ! 1)) \<and>
   discardTile 1 ''dot-9-104'' exampleGame = Inr (exampleGame, [])"
proof -
  have a: "1 < length (players exampleGame)"
    by (simp add: exampleGame_def)
  have b: "''dot-9-104'' \<notin> tile_id ` set (hand (players exampleGame ! 1))"
    by (simp add: exampleGame_def newPlayer_def numberTile_def)
  from discardTile_absent [OF a b] a b show ?thesis by simp
qed

text \<open>
  Claim C8: with four players, a draw from a non-empty pile succeeds and makes the
  player's hand one tile longer; discarding then any tile of that hand succeeds, brings
  the hand back to its length before the draw, appends the discarded tile to the
  player's discard pile, and sets the current player to (index + 1) mod 4.
\<close>

theorem draw_then_discard:
  assumes "length (players s) = 4" and "i < 4" and "drawPile s \<noteq> []"
  shows "\<exists>s1 e1. drawTile i s = Inr (s1, e1) \<and>
           length (hand (players s1 ! i)) = Suc (length (hand (players s ! i))) \<and>
           (\<forall>tileId \<in> tile_id ` set (hand (players s1 ! i)).
              \<exists>s2 e2 t. discardTile i tileId s1 = Inr (s2, e2) \<and>
                t \<in> set (hand (players s1 ! i)) \<and> tile_id t = tileId \<and>
                length (hand (players s2 ! i)) = length (hand (players s ! i)) \<and>
                discarded (players s2 ! i) = discarded (players s ! i) @ [t] \<and>
                currentPlayerIndex s2 = (i + 1) mod 4)"
proof -
  from assms(3) obtain d ds where pile: "drawPile s = d # ds" by (cases "drawPile s") auto
  define p' where "p' = (players s ! i)\<lparr>hand := sortTiles (hand (players s ! i) @ [d])\<rparr>"
  define s1 where "s1 = fst (projr (drawTile i s))"
  define e1 where "e1 = snd (projr (drawTile i s))"
  have dr: "drawTile i s = Inr (s1, e1)"
    using assms(1,2) pile unfolding s1_def e1_def by (simp add: drawTile_def Let_def)
  have pl: "players s1 = (players s)[i := p']"
    using assms(1,2) pile unfolding s1_def p'_def by (simp add: drawTile_def Let_def)
  have len1: "length (players s1) = 4" using pl assms(1) by simp
  have p1: "players s1 ! i = p'" using pl assms(1,2) by simp
  have hl: "length (hand p') = Suc (length (hand (players s ! i)))"
    by (simp add: p'_def length_sortTiles)
  have dp: "discarded p' = discarded (players s ! i)" by (simp add: p'_def)
  have "\<exists>s2 e2 t. discardTile i tileId s1 = Inr (s2, e2) \<and>
                t \<in> set (hand p') \<and> tile_id t = tileId \<and>
                length (hand (players s2 ! i)) = length (hand (players s ! i)) \<and>
                discarded (players s2 ! i) = discarded (players s ! i) @ [t] \<and>
                currentPlayerIndex s2 = (i + 1) mod 4"
    if "tileId \<in> tile_id ` set (hand p')" for tileId
  proof -
    from that obtain k where k: "findIndex tileId (hand p') = Some k"
      using findIndex_None[of tileId "hand p'"] by (cases "findIndex tileId (hand p')") auto
    from findIndex_Some[OF k] have kl: "k < length (hand p')"
      and kid: "tile_id (hand p' ! k) = tileId"
      by auto
    have "length (take k (hand p') @ drop (Suc k) (hand p')) = length (hand (players s ! i))"
      using kl hl by simp
    then show ?thesis
      using k kl kid len1 p1 assms(2) dp
      by (simp add: discardTile_def Let_def)
  qed
  with dr p1 hl show ?thesis by auto
qed

theorem draw_then_discard_witness:
  "length (players exampleGame) = 4 \<and> (2::nat) < 4 \<and> drawPile exampleGame \<noteq> [] \<and>
   (\<exists>s1 e1. drawTile 2 exampleGame = Inr (s1, e1) \<and>
           length (hand (players s1 ! 2)) = Suc (length (hand (players exampleGame ! 2))) \<and>
           (\<forall>tileId \<in> tile_id ` set (hand (players s1 ! 2)).
              \<exists>s2 e2 t. discardTile 2 tileId s1 = Inr (s2, e2) \<and>
                t \<in> set (hand (players s1 ! 2)) \<and> tile_id t = tileId \<and>
                length (hand (players s2 ! 2)) = length (hand (players exampleGame ! 2)) \<and>
                discarded (players s2 ! 2) = discarded (players exampleGame ! 2) @ [t] \<and>
                currentPlayerIndex s2 = (2 + 1) mod 4))"
proof -
  have a: "length (players exampleGame) = 4" by (simp add: exampleGame_def)
  have b: "(2::nat) < 4" by simp
  have c: "drawPile exampleGame \<noteq> []" by (simp add: exampleGame_def)
  from draw_then_discard [OF a b c] a b c show ?thesis by blast
qed

subsection \<open>The isolation test\<close>

lemma zip_indices: "zip h [0..<length h] = map (\<lambda>i. (h ! i, i)) [0..<length h]"
  by (rule nth_equalityI) simp_all

lemma hasNeighbor_iff:
  "hasNeighbor h tile index \<longleftrightarrow> (\<exists>j \<in> {0..<length h}. isNeighbor tile index (h ! j) j)"
  by (simp add: hasNeighbor_def zip_indices list_ex_iff)

lemma isNeighbor_near:
  assumes "wellTyped t" and "wellTyped u"
  shows "isNeighbor t i u j \<longleftrightarrow> j \<noteq> i \<and> near t u"
  using assms
  by (auto simp: isNeighbor_def near_def wellTyped_def numberOf_def
           split: option.splits TileVal.splits)

lemma hasNeighbor_isolatedAt:
  assumes "\<forall>t \<in> set h. wellTyped t" and "i < length h"
  shows "\<not> hasNeighbor h (h ! i) i \<longleftrightarrow> isolatedAt h i"
proof -
  have "isNeighbor (h ! i) i (h ! j) j \<longleftrightarrow> j \<noteq> i \<and> near (h ! i) (h ! j)"
    if "j \<in> {0..<length h}" for j
    using that assms by (intro isNeighbor_near) simp_all
  then show ?thesis by (simp add: hasNeighbor_iff isolatedAt_def)
qed

lemma findIsolatedTiles_indices:
  "findIsolatedTiles h =
     map (\<lambda>i. h ! i) (filter (\<lambda>i. \<not> hasNeighbor h (h ! i) i) [0..<length h])"
  by (simp add: findIsolatedTiles_def zip_indices filter_map comp_def)

text \<open>
  The code looks at the type of the two values, not at the suit: two wind tiles that
  carried numbers would be neighbours at distance 2. No tile of the deck is such a tile.
\<close>

lemma findIsolatedTiles_number_on_wind:
  "findIsolatedTiles [numberTile a Wind 3, numberTile b Wind 5] = []"
  by (simp add: findIsolatedTiles_def hasNeighbor_def isNeighbor_def numberTile_def upt_rec)

text \<open>
  Claim C4: in a hand of well-typed tiles, \<open>findIsolatedTiles\<close> returns, in hand order,
  exactly the tiles at the positions that are isolated as the specification words it: no
  tile at another position has the same suit and, for a numbered suit, a value at distance
  at most 2, or, for another suit, the same value. In particular three tiles of values 1,
  5 and 9 of one suit are all isolated, and of three tiles of values 1, 2 and 3 of one
  suit none is.
\<close>

theorem findIsolatedTiles_spec:
  "((\<forall>t \<in> set h. wellTyped t) \<longrightarrow>
      findIsolatedTiles h = map (\<lambda>i. h ! i) (filter (isolatedAt h) [0..<length h]) \<and>
      (\<forall>i<length h. \<not> hasNeighbor h (h ! i) i \<longleftrightarrow> isolatedAt h i)) \<and>
   findIsolatedTiles [numberTile a s 1, numberTile b s 5, numberTile c s 9]
     = [numberTile a s 1, numberTile b s 5, numberTile c s 9] \<and>
   findIsolatedTiles [numberTile a s 1, numberTile b s 2, numberTile c s 3] = []"
proof (intro conjI impI allI)
  assume wt: "\<forall>t \<in> set h. wellTyped t"
  have "filter (\<lambda>i. \<not> hasNeighbor h (h ! i) i) [0..<length h] = filter (isolatedAt h) [0..<length h]"
    by (rule filter_cong) (use wt hasNeighbor_isolatedAt in auto)
  then show "findIsolatedTiles h = map (\<lambda>i. h ! i) (filter (isolatedAt h) [0..<length h])"
    by (simp add: findIsolatedTiles_indices)
  show "(\<not> hasNeighbor h (h ! i) i) = isolatedAt h i" if "i < length h" for i
    using hasNeighbor_isolatedAt[OF wt that] .
next
  show "findIsolatedTiles [numberTile a s 1, numberTile b s 5, numberTile c s 9]
     = [numberTile a s 1, numberTile b s 5, numberTile c s 9]"
    by (simp add: findIsolatedTiles_def hasNeighbor_def isNeighbor_def numberTile_def upt_rec)
  show "findIsolatedTiles [numberTile a s 1, numberTile b s 2, numberTile c s 3] = []"
    by (simp add: findIsolatedTiles_def hasNeighbor_def isNeighbor_def numberTile_def upt_rec)
qed

subsection \<open>Opponent move selection\<close>

lemma first_match:
  "\<exists>x \<in> set xs. P x \<Longrightarrow>
     \<exists>i<length xs. P (xs ! i) \<and> (\<forall>j<i. \<not> P (xs ! j)) \<and> filter P xs \<noteq> [] \<and> hd (filter P xs) = xs ! i"
proof (induction xs)
  case Nil
  then show ?case by simp
next
  case (Cons x xs)
  show ?case
  proof (cases "P x")
    case True
    then show ?thesis by (intro exI[of _ 0]) simp
  next
    case False
    with Cons.prems have "\<exists>y \<in> set xs. P y" by auto
    from Cons.IH[OF this] obtain i where i: "i < length xs" "P (xs ! i)" "\<forall>j<i. \<not> P (xs ! j)"
      "filter P xs \<noteq> []" "hd (filter P xs) = xs ! i" by blast
    show ?thesis
    proof (intro exI[of _ "Suc i"] conjI allI impI)
      fix j assume "j < Suc i"
      with i(3) False show "\<not> P ((x # xs) ! j)" by (cases j) auto
    qed (use i False in auto)
  qed
qed

lemma isolated_first:
  assumes "\<exists>i<length h. \<not> hasNeighbor h (h ! i) i"
  shows "\<exists>i<length h. \<not> hasNeighbor h (h ! i) i \<and> (\<forall>j<i. hasNeighbor h (h ! j) j) \<and>
           findIsolatedTiles h \<noteq> [] \<and> hd (findIsolatedTiles h) = h ! i"
proof -
  define P where "P = (\<lambda>(tile, index). \<not> hasNeighbor h tile index)"
  define z where "z = zip h [0..<length h]"
  have zl: "length z = length h" by (simp add: z_def)
  have zn: "z ! k = (h ! k, k)" if "k < length h" for k using that by (simp add: z_def)
  have Pz: "P (z ! k) \<longleftrightarrow> \<not> hasNeighbor h (h ! k) k" if "k < length h" for k
    by (simp add: zn[OF that] P_def)
  from assms obtain i0 where i0: "i0 < length h" "\<not> hasNeighbor h (h ! i0) i0" by blast
  have "z ! i0 \<in> set z" using i0(1) zl by (intro nth_mem) simp
  moreover have "P (z ! i0)" using Pz[OF i0(1)] i0(2) by simp
  ultimately have "\<exists>x \<in> set z. P x" by (rule bexI[rotated])
  from first_match[OF this] obtain i where i: "i < length z" "P (z ! i)"
    "\<forall>j<i. \<not> P (z ! j)" "filter P z \<noteq> []" "hd (filter P z) = z ! i" by blast
  have il: "i < length h" using i(1) zl by simp
  have iso: "\<not> hasNeighbor h (h ! i) i" using i(2) Pz[OF il] by simp
  have before: "\<forall>j<i. hasNeighbor h (h ! j) j"
  proof (intro allI impI)
    fix j assume ji: "j < i"
    then have jl: "j < length h" using il by simp
    from i(3) ji have "\<not> P (z ! j)" by simp
    then show "hasNeighbor h (h ! j) j" using Pz[OF jl] by simp
  qed
  have fi: "findIsolatedTiles h = map fst (filter P z)"
    by (simp add: findIsolatedTiles_def P_def z_def)
  have ne: "findIsolatedTiles h \<noteq> []" unfolding fi using i(4) by simp
  have "hd (findIsolatedTiles h) = fst (hd (filter P z))"
    unfolding fi using i(4) by (simp add: hd_map)
  also have "\<dots> = fst (z ! i)" by (simp only: i(5))
  also have "\<dots> = h ! i" by (simp add: zn[OF il])
  finally have hdi: "hd (findIsolatedTiles h) = h ! i" .
  from il iso before ne hdi show ?thesis by blast
qed


lemma arrayGet_hd: "xs \<noteq> [] \<Longrightarrow> arrayGet xs 0 = Some (hd xs)"
  by (cases xs) (simp_all add: arrayGet_def)

lemma hard_isolated:
  assumes "findIsolatedTiles h \<noteq> []"
  shows "selectTileToDiscard g h ''hard'' = (Some (hd (findIsolatedTiles h)), g)"
proof -
  have hne: "length h \<noteq> 0" using assms by (auto simp: findIsolatedTiles_def)
  have fs: "findStrategicDiscard g h = (Some (hd (findIsolatedTiles h)), g)"
    using assms by (simp add: findStrategicDiscard_def Let_def arrayGet_hd)
  show ?thesis
    unfolding selectTileToDiscard_def using hne by (simp add: fs)
qed

text \<open>
  Claim C5: when a hand of well-typed tiles holds an isolated tile, isolated as the
  specification words it, the hard policy returns the first isolated tile in hand order,
  whatever the random source, and takes nothing from it.
\<close>

theorem hard_picks_first_isolated:
  assumes "\<forall>t \<in> set h. wellTyped t" and "\<exists>i<length h. isolatedAt h i"
  shows "\<exists>i<length h. isolatedAt h i \<and> (\<forall>j<i. \<not> isolatedAt h j) \<and>
           (\<forall>g. selectTileToDiscard g h ''hard'' = (Some (h ! i), g))"
proof -
  have eq: "\<not> hasNeighbor h (h ! k) k \<longleftrightarrow> isolatedAt h k" if "k < length h" for k
    using hasNeighbor_isolatedAt[OF assms(1) that] .
  from assms(2) eq have "\<exists>i<length h. \<not> hasNeighbor h (h ! i) i" by blast
  from isolated_first[OF this] obtain i where i: "i < length h" "\<not> hasNeighbor h (h ! i) i"
    "\<forall>j<i. hasNeighbor h (h ! j) j" "findIsolatedTiles h \<noteq> []" "hd (findIsolatedTiles h) = h ! i"
    by blast
  have sel: "selectTileToDiscard g h ''hard'' = (Some (h ! i), g)" for g
    using hard_isolated[OF i(4), of g] by (simp only: i(5))
  have iso: "isolatedAt h i" using i(1,2) eq by blast
  have before: "\<forall>j<i. \<not> isolatedAt h j"
  proof (intro allI impI)
    fix j assume j: "j < i"
    then have "j < length h" using i(1) by simp
    from eq[OF this] i(3) j show "\<not> isolatedAt h j" by blast
  qed
  from i(1) iso before sel show ?thesis by blast
qed

lemma twoIsolatedHand_isolated:
  "\<not> isolatedAt twoIsolatedHand 0 \<and> \<not> isolatedAt twoIsolatedHand 1 \<and>
   isolatedAt twoIsolatedHand 2 \<and> isolatedAt twoIsolatedHand 3"
  by code_simp

theorem hard_picks_first_isolated_witness:
  "list_all wellTyped twoIsolatedHand \<and>
   \<not> isolatedAt twoIsolatedHand 0 \<and> \<not> isolatedAt twoIsolatedHand 1 \<and>
   isolatedAt twoIsolatedHand 2 \<and> isolatedAt twoIsolatedHand 3 \<and>
   selectTileToDiscard zeroRandom twoIsolatedHand ''hard''
     = (Some (numberTile ''dot-7-98'' Dot 7), zeroRandom)"
proof -
  have w: "list_all wellTyped twoIsolatedHand"
    by (simp add: twoIsolatedHand_def wellTyped_def numberedSuit_def numberTile_def
          dragonTile_def)
  then have a: "\<forall>t \<in> set twoIsolatedHand. wellTyped t" by (simp add: list_all_iff)
  have l: "length twoIsolatedHand = 4" by (simp add: twoIsolatedHand_def)
  have b: "\<exists>i<length twoIsolatedHand. isolatedAt twoIsolatedHand i"
    using twoIsolatedHand_isolated l by (intro exI[of _ 2]) simp
  from hard_picks_first_isolated [OF a b] obtain i where i: "i < length twoIsolatedHand"
    "isolatedAt twoIsolatedHand i" "\<forall>j<i. \<not> isolatedAt twoIsolatedHand j"
    "\<forall>g. selectTileToDiscard g twoIsolatedHand ''hard'' = (Some (twoIsolatedHand ! i), g)"
    by blast
  have "i = 2"
  proof -
    have "\<not> 2 < i" using i(3) twoIsolatedHand_isolated by metis
    moreover have "i \<noteq> 0" using i(2) twoIsolatedHand_isolated by metis
    moreover have "i \<noteq> 1" using i(2) twoIsolatedHand_isolated by metis
    ultimately show ?thesis by simp
  qed
  with i(4) have "selectTileToDiscard zeroRandom twoIsolatedHand ''hard''
      = (Some (twoIsolatedHand ! 2), zeroRandom)" by blast
  moreover have "twoIsolatedHand ! 2 = numberTile ''dot-7-98'' Dot 7"
    by (simp add: twoIsolatedHand_def)
  ultimately show ?thesis using w twoIsolatedHand_isolated by simp
qed

lemma exampleHand_isolated:
  "findIsolatedTiles exampleHand = [dragonTile ''dragon-red-124'' Red]"
  by (simp add: exampleHand_def findIsolatedTiles_def hasNeighbor_def isNeighbor_def
        numberTile_def dragonTile_def upt_rec)

theorem findIsolatedTiles_spec_witness:
  "list_all wellTyped exampleHand \<and>
   findIsolatedTiles exampleHand
     = map (\<lambda>i. exampleHand ! i) (filter (isolatedAt exampleHand) [0..<length exampleHand]) \<and>
   findIsolatedTiles exampleHand = [dragonTile ''dragon-red-124'' Red]"
proof -
  have a: "list_all wellTyped exampleHand"
    by (simp add: exampleHand_def wellTyped_def numberedSuit_def numberTile_def dragonTile_def)
  then have "\<forall>t \<in> set exampleHand. wellTyped t" by (simp add: list_all_iff)
  with findIsolatedTiles_spec [of exampleHand] a exampleHand_isolated show ?thesis by blast
qed

lemma randomTile_singleton:
  "g 0 1 = 0 \<Longrightarrow> randomTile g [t] = (Some t, snd (nextRandom g))"
  by (simp add: randomTile_def nextRandom_def randomIndex_def arrayGet_def)

lemma selectTileToDiscard_default:
  assumes "d \<noteq> ''easy''" "d \<noteq> ''medium''" "d \<noteq> ''hard''" "h \<noteq> []"
  shows "selectTileToDiscard g h d = (Some (hd h), g)"
  using assms by (cases h) (simp_all add: selectTileToDiscard_def arrayGet_def)

lemma selectTileToDiscard_medium:
  "selectTileToDiscard g h ''medium'' =
     (if h = [] then (None, g)
      else if findIsolatedTiles h \<noteq> [] then randomTile g (findIsolatedTiles h)
      else randomTile g h)"
  by (simp add: selectTileToDiscard_def Let_def)

text \<open>
  Claim C9 as stated fails: with the difficulty string \<open>expert\<close> the opponent discards the
  first tile of its hand, here a tile with a neighbour, where the medium policy discards
  the one isolated tile.
\<close>

theorem invalid_difficulty_counterexample:
  "fst (selectTileToDiscard (zeroRandom) exampleHand (difficultyOf (Some ''expert'')))
     = Some (numberTile ''bamboo-1-0'' Bamboo 1) \<and>
   fst (selectTileToDiscard (zeroRandom) exampleHand ''medium'')
     = Some (dragonTile ''dragon-red-124'' Red) \<and>
   selectTileToDiscard (zeroRandom) exampleHand (difficultyOf (Some ''expert''))
     \<noteq> selectTileToDiscard (zeroRandom) exampleHand ''medium''"
proof -
  have u: "zeroRandom 0 1 = 0" by (simp add: zeroRandom_def)
  have ne: "exampleHand \<noteq> []" by (simp add: exampleHand_def)
  have a: "selectTileToDiscard (zeroRandom) exampleHand (difficultyOf (Some ''expert''))
        = (Some (numberTile ''bamboo-1-0'' Bamboo 1), zeroRandom)"
    by (simp add: difficultyOf_def selectTileToDiscard_default ne) (simp add: exampleHand_def)
  have b: "selectTileToDiscard (zeroRandom) exampleHand ''medium''
        = (Some (dragonTile ''dragon-red-124'' Red), snd (nextRandom (zeroRandom)))"
    by (simp add: selectTileToDiscard_medium ne exampleHand_isolated randomTile_singleton[of zeroRandom, OF u])
  show ?thesis unfolding a b by (simp add: numberTile_def dragonTile_def)
qed

text \<open>
  Claim C9, amended: an absent or empty difficulty parameter becomes medium, and the
  opponent's selection is then the one of the medium policy; any other string is kept as
  it is, and with a string that is none of easy, medium and hard the opponent discards
  the first tile of its hand.
\<close>

theorem difficulty_default:
  "difficultyOf None = ''medium'' \<and> difficultyOf (Some []) = ''medium'' \<and>
   (d \<noteq> [] \<longrightarrow> difficultyOf (Some d) = d) \<and>
   selectTileToDiscard g h (difficultyOf None) = selectTileToDiscard g h ''medium'' \<and>
   selectTileToDiscard g h (difficultyOf (Some [])) = selectTileToDiscard g h ''medium'' \<and>
   (d \<noteq> [] \<and> d \<noteq> ''easy'' \<and> d \<noteq> ''medium'' \<and> d \<noteq> ''hard'' \<and> h \<noteq> [] \<longrightarrow>
      selectTileToDiscard g h (difficultyOf (Some d)) = (Some (hd h), g))"
  by (simp add: difficultyOf_def selectTileToDiscard_default)

theorem difficulty_default_witness:
  "''expert'' \<noteq> [] \<and> difficultyOf (Some ''expert'') = ''expert'' \<and> exampleHand \<noteq> [] \<and>
   selectTileToDiscard (zeroRandom) exampleHand (difficultyOf (Some ''expert''))
     = (Some (hd exampleHand), zeroRandom)"
proof -
  have ne: "exampleHand \<noteq> []" by (simp add: exampleHand_def)
  have d: "''expert'' \<noteq> [] \<and> ''expert'' \<noteq> ''easy'' \<and> ''expert'' \<noteq> ''medium'' \<and>
           ''expert'' \<noteq> ''hard''" by simp
  from difficulty_default [of "''expert''" "zeroRandom" exampleHand] ne d
  show ?thesis by blast
qed

subsection \<open>Deck construction\<close>

lemma numberString_digits_lower: "c \<in> set (numberString n) \<Longrightarrow> 48 \<le> (of_char c :: nat)"
proof (induction n rule: numberString.induct)
  case (1 n)
  show ?case
  proof (cases "n < 10")
    case True
    with "1.prems" have "c = digitChar n" by (subst (asm) numberString.simps) simp
    with True show ?thesis by (simp add: of_char_digitChar)
  next
    case False
    with "1.prems" have "c \<in> set (numberString (n div 10)) \<or> c = digitChar (n mod 10)"
      by (subst (asm) numberString.simps) auto
    then show ?thesis
    proof
      assume "c \<in> set (numberString (n div 10))"
      with "1.IH"[OF False] show ?thesis .
    next
      assume "c = digitChar (n mod 10)"
      then show ?thesis by (simp add: of_char_digitChar)
    qed
  qed
qed

text \<open>
  The array before the shuffle, evaluated: the 34 combinations, four copies of each in
  turn, numbered from 0 to 135.
\<close>

lemma unshuffledTiles_eval:
  "unshuffledTiles =
     map (\<lambda>(k, i). \<lparr>tile_id = suitString (fst k) @ ''-'' @ valueString (snd k) @ ''-''
                                  @ numberString i,
                      suit = fst k, tile_value = snd k, isSelected = None\<rparr>)
       (zip (concat (map (replicate 4) combinations)) [0..<136])"
  by code_simp

lemma length_concat_replicate: "length (concat (map (replicate n) xs)) = n * length xs"
  by (induction xs) auto

lemma combinations_length: "length combinations = 34"
  by (simp add: combinations_def)

lemma combinations_distinct: "distinct combinations"
  by (simp add: combinations_def upt_rec)

lemma count_list_concat_replicate:
  "distinct xs \<Longrightarrow> count_list (concat (map (replicate n) xs)) k = (if k \<in> set xs then n else 0)"
proof (induction xs)
  case Nil
  then show ?case by simp
next
  case (Cons x xs)
  have r: "count_list (replicate n x) k = (if k = x then n else 0)"
    by (induction n) auto
  from Cons show ?case by (auto simp: r)
qed

lemma copies_length: "length (concat (map (replicate 4) combinations)) = 136"
  by (simp add: length_concat_replicate combinations_length)

lemma unshuffled_length: "length unshuffledTiles = 136"
  by (simp add: unshuffledTiles_eval copies_length)

lemma unshuffled_suitValue:
  "map suitValue unshuffledTiles = concat (map (replicate 4) combinations)"
proof -
  have "map suitValue unshuffledTiles
      = map fst (zip (concat (map (replicate 4) combinations)) [0..<136])"
    unfolding unshuffledTiles_eval by (simp add: suitValue_def case_prod_beta comp_def)
  also have "\<dots> = concat (map (replicate 4) combinations)"
    by (rule map_fst_zip) (simp add: copies_length)
  finally show ?thesis .
qed

text \<open>The counter at the end of an identifier: what follows its last dash.\<close>

lemma after_last_dash:
  assumes "CHR ''-'' \<notin> set u"
  shows "rev (takeWhile (\<lambda>c. c \<noteq> CHR ''-'') (rev u @ CHR ''-'' # rev p)) = u"
proof -
  have "takeWhile (\<lambda>c. c \<noteq> CHR ''-'') (rev u @ CHR ''-'' # rev p)
      = takeWhile (\<lambda>c. c \<noteq> CHR ''-'') (rev u)"
    by (rule takeWhile_tail) simp
  also have "\<dots> = rev u" using assms by (auto simp: takeWhile_eq_all_conv)
  finally show ?thesis by simp
qed

lemma numberString_no_dash: "CHR ''-'' \<notin> set (numberString n)"
  using numberString_digits_lower[of "CHR ''-''" n] by auto

lemma distinct_numbered_ids:
  "distinct (map (\<lambda>(k, i). f k @ ''-'' @ numberString i) (zip ks [a..<b]))"
proof -
  let ?g = "\<lambda>(k, i). f k @ ''-'' @ numberString i"
  let ?h = "\<lambda>s. rev (takeWhile (\<lambda>c. c \<noteq> CHR ''-'') (rev s))"
  have "map ?h (map ?g (zip ks [a..<b])) = map numberString (map snd (zip ks [a..<b]))"
    by (simp add: case_prod_beta comp_def after_last_dash[OF numberString_no_dash])
  moreover have "distinct (map snd (zip ks [a..<b]))"
    by (simp add: map_snd_zip_take)
  ultimately have "distinct (map ?h (map ?g (zip ks [a..<b])))"
    by (simp add: distinct_map inj_on_def numberString_inj del: map_map)
  then show ?thesis using distinct_map by (metis distinct_map)
qed


lemma unshuffled_ids: "distinct (map tile_id unshuffledTiles)"
proof -
  have "map tile_id unshuffledTiles
      = map (\<lambda>(k, i). (suitString (fst k) @ ''-'' @ valueString (snd k)) @ ''-'' @ numberString i)
          (zip (concat (map (replicate 4) combinations)) [0..<136])"
    unfolding unshuffledTiles_eval by (simp add: case_prod_beta comp_def)
  then show ?thesis by (simp only: distinct_numbered_ids)
qed

lemma unshuffled_counts:
  "count_list (map suitValue unshuffledTiles) k = (if k \<in> set combinations then 4 else 0)"
  unfolding unshuffled_suitValue by (rule count_list_concat_replicate[OF combinations_distinct])

lemma combinations_no_flower: "(s, v) \<in> set combinations \<Longrightarrow> s \<noteq> Flower"
  by (auto simp: combinations_def)

lemma unshuffled_no_flower: "t \<in> set unshuffledTiles \<Longrightarrow> suit t \<noteq> Flower"
proof -
  assume "t \<in> set unshuffledTiles"
  then have "suitValue t \<in> set (map suitValue unshuffledTiles)" by simp
  then have "suitValue t \<in> set combinations" unfolding unshuffled_suitValue by auto
  then show ?thesis using combinations_no_flower[of "suit t" "tile_value t"]
    by (simp add: suitValue_def)
qed

lemma permuting_map:
  assumes "permuting shuffle"
  shows "mset (map f (shuffle xs)) = mset (map f xs)"
proof -
  from assms have "mset (shuffle xs) = mset xs" by (simp add: permuting_def)
  then have "image_mset f (mset (shuffle xs)) = image_mset f (mset xs)" by simp
  then show ?thesis by (simp only: mset_map)
qed

text \<open>
  Claim C2: a freshly built deck has exactly 136 tiles; each combination of suit and value
  of the three numbered suits (values 1 to 9), the four winds and the three dragons occurs
  exactly 4 times, and nothing else occurs; the identifiers are pairwise distinct; and no
  tile has the flower suit.
\<close>

theorem createTileDeck_full_set:
  assumes "permuting shuffle"
  shows "length (createTileDeck shuffle) = 136 \<and>
         (\<forall>k. count_list (map suitValue (createTileDeck shuffle)) k
                = (if k \<in> set combinations then 4 else 0)) \<and>
         distinct (map tile_id (createTileDeck shuffle)) \<and>
         (\<forall>t \<in> set (createTileDeck shuffle). suit t \<noteq> Flower)"
proof (intro conjI allI ballI)
  have m: "mset (createTileDeck shuffle) = mset unshuffledTiles"
    using assms by (simp add: createTileDeck_def permuting_def)
  from mset_eq_length[OF m] show "length (createTileDeck shuffle) = 136"
    by (simp add: unshuffled_length)
  show "count_list (map suitValue (createTileDeck shuffle)) k
          = (if k \<in> set combinations then 4 else 0)" for k
  proof -
    have "count (mset (map suitValue (createTileDeck shuffle))) k
        = count (mset (map suitValue unshuffledTiles)) k"
      unfolding createTileDeck_def permuting_map[OF assms] by (rule refl)
    then show ?thesis by (simp only: count_mset unshuffled_counts)
  qed
  have "mset (map tile_id (createTileDeck shuffle)) = mset (map tile_id unshuffledTiles)"
    unfolding createTileDeck_def by (rule permuting_map[OF assms])
  from mset_eq_imp_distinct_iff[OF this] unshuffled_ids
  show "distinct (map tile_id (createTileDeck shuffle))" by simp
  show "suit t \<noteq> Flower" if "t \<in> set (createTileDeck shuffle)" for t
  proof -
    from mset_eq_setD[OF m] that have "t \<in> set unshuffledTiles" by simp
    then show ?thesis by (rule unshuffled_no_flower)
  qed
qed

theorem createTileDeck_full_set_witness:
  "permuting rev \<and> length (createTileDeck rev) = 136 \<and>
   count_list (map suitValue (createTileDeck rev)) (Wind, Some (WindV East)) = 4 \<and>
   count_list (map suitValue (createTileDeck rev)) (Flower, None) = 0 \<and>
   distinct (map tile_id (createTileDeck rev))"
proof -
  have p: "permuting rev" by (simp add: permuting_def)
  have "(Wind, Some (WindV East)) \<in> set combinations" by (simp add: combinations_def)
  moreover have "(Flower, None) \<notin> set combinations" by (auto simp: combinations_def)
  ultimately show ?thesis using createTileDeck_full_set [OF p] p by simp
qed

subsection \<open>Ordering and sorting\<close>

lemma localeCompare_le: "localeCompare a b \<le> 0 \<longleftrightarrow> a \<le> b"
  by (auto simp: localeCompare_def)

lemma numberString_Cons: "\<exists>c cs. numberString n = c # cs \<and> (of_char c :: nat) < 58"
proof -
  obtain c cs where e: "numberString n = c # cs"
    using numberString_nonempty[of n] by (cases "numberString n") auto
  then have "c \<in> set (numberString n)" by simp
  from numberString_digits[OF this] e show ?thesis by blast
qed

lemma digit_first_less:
  assumes "(of_char d :: nat) \<ge> 58"
  shows "numberString n < d # ds"
proof -
  from numberString_Cons[of n] obtain c cs where e: "numberString n = c # cs"
    and c: "(of_char c :: nat) < 58" by blast
  from c assms have "c < d" by (simp add: less_char_def)
  then show ?thesis by (simp add: e)
qed

lemma number_less_word:
  assumes "\<And>n. v \<noteq> Some (NumV n)"
  shows "numberString n < valueString v"
proof (cases v rule: valueString.cases)
  case 1
  then show ?thesis by (simp add: digit_first_less)
next
  case (2 m)
  with assms[of m] show ?thesis by simp
next
  case (3 w)
  then show ?thesis by (cases w) (simp_all add: digit_first_less)
next
  case (4 d)
  then show ?thesis by (cases d) (simp_all add: digit_first_less)
qed

text \<open>The comparison of two values, the second part of \<open>compareTiles\<close>.\<close>


lemma suitOrder_inj: "suitOrder s = suitOrder t \<Longrightarrow> s = t"
  by (cases s; cases t) simp_all

lemma valueLe_trans: "valueLe u v \<Longrightarrow> valueLe v w \<Longrightarrow> valueLe u w"
proof -
  assume a: "valueLe u v" and b: "valueLe v w"
  consider (nnn) x y z where "u = Some (NumV x)" "v = Some (NumV y)" "w = Some (NumV z)"
    | (nnw) x y where "u = Some (NumV x)" "v = Some (NumV y)" "\<And>n. w \<noteq> Some (NumV n)"
    | (nw) x where "u = Some (NumV x)" "\<And>n. v \<noteq> Some (NumV n)"
    | (wn) y where "\<And>n. u \<noteq> Some (NumV n)" "v = Some (NumV y)"
    | (www) "\<And>n. u \<noteq> Some (NumV n)" "\<And>n. v \<noteq> Some (NumV n)"
    by (metis)
  then show ?thesis
  proof cases
    case nnn
    with a b show ?thesis by (simp add: valueLe_def)
  next
    case nnw
    from number_less_word[OF nnw(3), of x] nnw(1) nnw(3) show ?thesis
      by (auto simp: valueLe_def split: option.splits TileVal.splits)
  next
    case nw
    from number_less_word[OF nw(2)] have lt: "\<And>n. numberString n < valueString v" .
    show ?thesis
    proof (cases "\<exists>z. w = Some (NumV z)")
      case True
      then obtain z where "w = Some (NumV z)" by blast
      with b nw lt[of z] show ?thesis
        by (auto simp: valueLe_def split: option.splits TileVal.splits)
    next
      case False
      then have nw': "\<And>n. w \<noteq> Some (NumV n)" by blast
      from number_less_word[OF nw', of x] nw(1) nw' show ?thesis
        by (auto simp: valueLe_def split: option.splits TileVal.splits)
    qed
  next
    case wn
    from number_less_word[OF wn(1), of y] a wn show ?thesis
      by (auto simp: valueLe_def split: option.splits TileVal.splits)
  next
    case www
    show ?thesis
    proof (cases "\<exists>z. w = Some (NumV z)")
      case True
      then obtain z where "w = Some (NumV z)" by blast
      with b www number_less_word[OF www(2), of z] show ?thesis
        by (auto simp: valueLe_def split: option.splits TileVal.splits)
    next
      case False
      with a b www show ?thesis
        by (auto simp: valueLe_def split: option.splits TileVal.splits)
    qed
  qed
qed


lemma compareTiles_same_suit:
  "suit a = suit b \<Longrightarrow> compareTiles a b \<le> 0 \<longleftrightarrow> valueLe (tile_value a) (tile_value b)"
  by (auto simp: compareTiles_def valueLe_def localeCompare_le split: option.splits TileVal.splits)

lemma valueLe_total: "valueLe v w \<or> valueLe w v"
  by (auto simp: valueLe_def split: option.splits TileVal.splits)

lemma compareTiles_le_iff:
  "compareTiles a b \<le> 0 \<longleftrightarrow>
     suitOrder (suit a) < suitOrder (suit b) \<or>
     (suit a = suit b \<and> valueLe (tile_value a) (tile_value b))"
proof (cases "suit a = suit b")
  case True
  then show ?thesis by (simp add: compareTiles_same_suit)
next
  case False
  then have "suitOrder (suit a) \<noteq> suitOrder (suit b)" using suitOrder_inj by blast
  with False show ?thesis by (auto simp: compareTiles_def)
qed

lemma compareTiles_trans:
  "compareTiles a b \<le> 0 \<Longrightarrow> compareTiles b c \<le> 0 \<Longrightarrow> compareTiles a c \<le> 0"
  unfolding compareTiles_le_iff using valueLe_trans by (metis less_trans)

lemma compareTiles_total: "compareTiles a b \<le> 0 \<or> compareTiles b a \<le> 0"
  unfolding compareTiles_le_iff using valueLe_total suitOrder_inj
  by (metis linorder_neqE_linordered_idom)

lemma set_insertTile: "set (insertTile x ys) = insert x (set ys)"
  by (induction ys) auto

lemma mset_insertTile: "mset (insertTile x ys) = add_mset x (mset ys)"
  by (induction ys) auto

lemma mset_sortTiles: "mset (sortTiles xs) = mset xs"
  unfolding sortTiles_def by (induction xs) (auto simp: mset_insertTile)

lemma set_sortTiles: "set (sortTiles xs) = set xs"
  using mset_sortTiles[of xs] by (metis set_mset_mset)

lemma sortedTiles_insertTile: "sortedTiles ys \<Longrightarrow> sortedTiles (insertTile x ys)"
proof (induction ys)
  case Nil
  then show ?case by (simp add: sortedTiles_def)
next
  case (Cons y ys)
  from Cons.prems have tl: "sortedTiles ys" and hd: "\<forall>z \<in> set ys. compareTiles y z \<le> 0"
    by (simp_all add: sortedTiles_def)
  show ?case
  proof (cases "compareTiles x y \<le> 0")
    case True
    with hd have "\<forall>z \<in> set ys. compareTiles x z \<le> 0"
      using compareTiles_trans by blast
    with True Cons.prems show ?thesis by (simp add: sortedTiles_def)
  next
    case False
    with compareTiles_total[of x y] have "compareTiles y x \<le> 0" by simp
    with hd have "\<forall>z \<in> set (insertTile x ys). compareTiles y z \<le> 0"
      by (simp add: set_insertTile)
    with False Cons.IH[OF tl] show ?thesis by (simp add: sortedTiles_def)
  qed
qed

lemma sortedTiles_sortTiles: "sortedTiles (sortTiles xs)"
  unfolding sortTiles_def
  by (induction xs) (simp_all add: sortedTiles_insertTile, simp add: sortedTiles_def)

text \<open>The comparator decides the display order of the specification.\<close>

lemma suitRank_suitOrder: "int (suitRank s) = suitOrder s"
  by (cases s) (simp_all add: suitRank_def suitRanking_def)

lemma compareTiles_displayLe: "compareTiles a b \<le> 0 \<longleftrightarrow> displayLe a b"
  unfolding compareTiles_le_iff displayLe_def
  using suitRank_suitOrder[of "suit a"] suitRank_suitOrder[of "suit b"] by auto

lemma sortedTiles_inDisplayOrder: "sortedTiles xs \<longleftrightarrow> inDisplayOrder xs"
  by (simp add: sortedTiles_def inDisplayOrder_def compareTiles_displayLe)

lemma inDisplayOrder_sortTiles: "inDisplayOrder (sortTiles xs)"
  using sortedTiles_sortTiles[of xs] by (simp add: sortedTiles_inDisplayOrder)

subsection \<open>Dealing\<close>

lemma length_slice: "b \<le> length xs \<Longrightarrow> length (slice xs a b) = b - a"
  by (simp add: slice_def)

lemma slice_drop_take: "slice xs a b = drop a (take b xs)"
  by (simp add: slice_def drop_take)

lemma slices_disjoint:
  assumes "distinct xs" and "b \<le> c"
  shows "set (slice xs a b) \<inter> set (slice xs c d) = {}"
proof -
  have "set (slice xs a b) \<subseteq> set (take b xs)"
    unfolding slice_drop_take by (rule set_drop_subset)
  moreover have "set (slice xs c d) \<subseteq> set (drop c xs)"
    unfolding slice_def by (rule set_take_subset)
  moreover from assms have "set (take b xs) \<inter> set (drop c xs) = {}"
    by (rule set_take_disj_set_drop_if_distinct)
  ultimately show ?thesis by blast
qed

lemma slice_append: "a \<le> b \<Longrightarrow> take a xs @ slice xs a b = take b xs"
proof -
  assume "a \<le> b"
  then have "take b xs = take (a + (b - a)) xs" by simp
  also have "\<dots> = take a xs @ take (b - a) (drop a xs)" by (rule take_add)
  finally show ?thesis by (simp add: slice_def)
qed

lemma deal_partition:
  "slice deck 0 13 @ slice deck 13 26 @ slice deck 26 39 @ slice deck 39 52 @ drop 52 deck = deck"
proof -
  have "take 13 deck = slice deck 0 13" by (simp add: slice_def)
  moreover have "take 13 deck @ slice deck 13 26 = take 26 deck" by (rule slice_append) simp
  moreover have "take 26 deck @ slice deck 26 39 = take 39 deck" by (rule slice_append) simp
  moreover have "take 39 deck @ slice deck 39 52 = take 52 deck" by (rule slice_append) simp
  ultimately have "slice deck 0 13 @ slice deck 13 26 @ slice deck 26 39 @ slice deck 39 52
      = take 52 deck" by (metis append.assoc)
  then have "(slice deck 0 13 @ slice deck 13 26 @ slice deck 26 39 @ slice deck 39 52)
      @ drop 52 deck = deck" by (simp only: append_take_drop_id)
  then show ?thesis by simp
qed

lemma dealPlayers_hand:
  assumes "i < 4"
  shows "hand (dealPlayers deck ! i) = sortTiles (slice deck (13 * i) (13 * i + 13))
       \<and> discarded (dealPlayers deck ! i) = []"
proof -
  from assms consider "i = 0" | "i = 1" | "i = 2" | "i = 3" by linarith
  then show ?thesis
    by cases (simp_all add: dealPlayers_def newPlayer_def)
qed

lemma createTileDeck_distinct:
  assumes "permuting shuffle"
  shows "distinct (createTileDeck shuffle)"
proof -
  have "distinct unshuffledTiles" using unshuffled_ids by (rule distinct_map[THEN iffD1, THEN conjunct1])
  moreover have "mset (createTileDeck shuffle) = mset unshuffledTiles"
    using assms by (simp add: createTileDeck_def permuting_def)
  ultimately show ?thesis using mset_eq_imp_distinct_iff by blast
qed

lemma createTileDeck_length:
  assumes "permuting shuffle"
  shows "length (createTileDeck shuffle) = 136"
proof -
  have "mset (createTileDeck shuffle) = mset unshuffledTiles"
    using assms by (simp add: createTileDeck_def permuting_def)
  from mset_eq_length[OF this] show ?thesis by (simp add: unshuffled_length)
qed

text \<open>
  Claim C3: initializing a game makes 4 players; player \<open>i\<close> holds the 13 tiles of the
  deck from position \<open>13 i\<close> on, in the display order of the specification (by suit rank,
  then by value), which is the order of \<open>compareTiles\<close>, and has discarded nothing;
  the hands are pairwise disjoint; the draw pile is the remaining 84 tiles; hands and draw
  pile together are the 136 tiles of the deck; the phase is playing, the current player is
  0, and there is no winner.
\<close>

theorem initializeGame_deal:
  assumes "permuting shuffle"
  shows "\<exists>s' e. initializeGame shuffle difficulty s = (s', e) \<and>
     length (players s') = 4 \<and>
     (\<forall>i<4. hand (players s' ! i)
               = sortTiles (slice (createTileDeck shuffle) (13 * i) (13 * i + 13)) \<and>
             mset (hand (players s' ! i))
               = mset (slice (createTileDeck shuffle) (13 * i) (13 * i + 13)) \<and>
             length (hand (players s' ! i)) = 13 \<and>
             sortedTiles (hand (players s' ! i)) \<and>
             inDisplayOrder (hand (players s' ! i)) \<and>
             discarded (players s' ! i) = []) \<and>
     (\<forall>i<4. \<forall>j<4. i \<noteq> j \<longrightarrow>
         set (hand (players s' ! i)) \<inter> set (hand (players s' ! j)) = {}) \<and>
     drawPile s' = drop 52 (createTileDeck shuffle) \<and>
     length (drawPile s') = 84 \<and>
     mset (hand (players s' ! 0)) + mset (hand (players s' ! 1)) + mset (hand (players s' ! 2))
       + mset (hand (players s' ! 3)) + mset (drawPile s') = mset (createTileDeck shuffle) \<and>
     mset (createTileDeck shuffle) = mset unshuffledTiles \<and>
     length (createTileDeck shuffle) = 136 \<and>
     gameState s' = Playing \<and> currentPlayerIndex s' = 0 \<and> winner s' = None"
proof -
  define deck where "deck = createTileDeck shuffle"
  define s' where "s' = fst (initializeGame shuffle difficulty s)"
  define e where "e = snd (initializeGame shuffle difficulty s)"
  have len: "length deck = 136" unfolding deck_def by (rule createTileDeck_length[OF assms])
  have dist: "distinct deck" unfolding deck_def by (rule createTileDeck_distinct[OF assms])
  have ms: "mset deck = mset unshuffledTiles"
    using assms by (simp add: deck_def createTileDeck_def permuting_def)
  have pl: "players s' = dealPlayers deck"
    by (simp add: s'_def initializeGame_def Let_def deck_def)
  have dp: "drawPile s' = drop 52 deck"
    by (simp add: s'_def initializeGame_def Let_def deck_def)
  have st: "gameState s' = Playing \<and> currentPlayerIndex s' = 0 \<and> winner s' = None"
    by (simp add: s'_def initializeGame_def Let_def)
  have h: "hand (players s' ! i) = sortTiles (slice deck (13 * i) (13 * i + 13))"
    and d: "discarded (players s' ! i) = []" if "i < 4" for i
    using dealPlayers_hand[OF that, of deck] by (simp_all add: pl)
  have hl: "length (hand (players s' ! i)) = 13" if "i < 4" for i
    using that len by (simp add: h[OF that] length_sortTiles length_slice)
  have disj: "set (hand (players s' ! i)) \<inter> set (hand (players s' ! j)) = {}"
    if "i < 4" "j < 4" "i \<noteq> j" for i j
  proof (cases "i < j")
    case True
    then have "13 * i + 13 \<le> 13 * j" by simp
    from slices_disjoint[OF dist this] show ?thesis
      by (simp add: h[OF that(1)] h[OF that(2)] set_sortTiles)
  next
    case False
    with that(3) have "13 * j + 13 \<le> 13 * i" by simp
    from slices_disjoint[OF dist this] show ?thesis
      by (simp add: h[OF that(1)] h[OF that(2)] set_sortTiles Int_commute)
  qed
  have "mset (hand (players s' ! 0)) + mset (hand (players s' ! 1))
       + mset (hand (players s' ! 2)) + mset (hand (players s' ! 3)) + mset (drawPile s')
     = mset (slice deck 0 13 @ slice deck 13 26 @ slice deck 26 39 @ slice deck 39 52
             @ drop 52 deck)"
    using h[of 0] h[of 1] h[of 2] h[of 3] by (simp add: dp mset_sortTiles)
  then have un: "mset (hand (players s' ! 0)) + mset (hand (players s' ! 1))
       + mset (hand (players s' ! 2)) + mset (hand (players s' ! 3)) + mset (drawPile s')
     = mset deck" by (simp only: deal_partition)
  have "initializeGame shuffle difficulty s = (s', e)" by (simp add: s'_def e_def)
  moreover have "length (players s') = 4" by (simp add: pl dealPlayers_def)
  moreover have "\<forall>i<4. hand (players s' ! i) = sortTiles (slice deck (13 * i) (13 * i + 13)) \<and>
             mset (hand (players s' ! i)) = mset (slice deck (13 * i) (13 * i + 13)) \<and>
             length (hand (players s' ! i)) = 13 \<and>
             sortedTiles (hand (players s' ! i)) \<and>
             inDisplayOrder (hand (players s' ! i)) \<and>
             discarded (players s' ! i) = []"
    using h hl d by (simp add: sortedTiles_sortTiles inDisplayOrder_sortTiles mset_sortTiles)
  moreover have "\<forall>i<4. \<forall>j<4. i \<noteq> j \<longrightarrow>
         set (hand (players s' ! i)) \<inter> set (hand (players s' ! j)) = {}"
    using disj by blast
  moreover have "length (drawPile s') = 84" using len by (simp add: dp)
  ultimately show ?thesis
    using dp un ms len st unfolding deck_def[symmetric] by blast
qed

text \<open>
  With the deck reversed instead of shuffled, the first player is dealt the twelve dragons
  from white to red and a north wind, and holds them with the wind first and the dragons
  in the order green, red, white.
\<close>

lemma first_hand_rev:
  "map tile_id (sortTiles (slice (createTileDeck rev) 0 13)) =
     [''wind-north-123'', ''dragon-green-131'', ''dragon-green-130'', ''dragon-green-129'',
      ''dragon-green-128'', ''dragon-red-127'', ''dragon-red-126'', ''dragon-red-125'',
      ''dragon-red-124'', ''dragon-white-135'', ''dragon-white-134'', ''dragon-white-133'',
      ''dragon-white-132'']"
  by code_simp

theorem initializeGame_deal_witness:
  "permuting rev \<and>
   (\<exists>s' e. initializeGame rev ''hard'' initialGame = (s', e) \<and>
     length (players s') = 4 \<and>
     map tile_id (hand (players s' ! 0)) =
       [''wind-north-123'', ''dragon-green-131'', ''dragon-green-130'', ''dragon-green-129'',
        ''dragon-green-128'', ''dragon-red-127'', ''dragon-red-126'', ''dragon-red-125'',
        ''dragon-red-124'', ''dragon-white-135'', ''dragon-white-134'', ''dragon-white-133'',
        ''dragon-white-132''] \<and>
     length (hand (players s' ! 0)) = 13 \<and> inDisplayOrder (hand (players s' ! 0)) \<and>
     length (hand (players s' ! 3)) = 13 \<and> inDisplayOrder (hand (players s' ! 3)) \<and>
     set (hand (players s' ! 0)) \<inter> set (hand (players s' ! 3)) = {} \<and>
     length (drawPile s') = 84 \<and>
     mset (hand (players s' ! 0)) + mset (hand (players s' ! 1)) + mset (hand (players s' ! 2))
       + mset (hand (players s' ! 3)) + mset (drawPile s') = mset (createTileDeck rev) \<and>
     gameState s' = Playing \<and> currentPlayerIndex s' = 0 \<and> winner s' = None)"
proof -
  have p: "permuting rev" by (simp add: permuting_def)
  from initializeGame_deal [OF p, of "''hard''" initialGame]
  obtain s' e where a: "initializeGame rev ''hard'' initialGame = (s', e)"
    "length (players s') = 4"
    "\<forall>i<4. hand (players s' ! i)
               = sortTiles (slice (createTileDeck rev) (13 * i) (13 * i + 13)) \<and>
             mset (hand (players s' ! i))
               = mset (slice (createTileDeck rev) (13 * i) (13 * i + 13)) \<and>
             length (hand (players s' ! i)) = 13 \<and>
             sortedTiles (hand (players s' ! i)) \<and>
             inDisplayOrder (hand (players s' ! i)) \<and>
             discarded (players s' ! i) = []"
    "\<forall>i<4. \<forall>j<4. i \<noteq> j \<longrightarrow>
         set (hand (players s' ! i)) \<inter> set (hand (players s' ! j)) = {}"
    "length (drawPile s') = 84"
    "mset (hand (players s' ! 0)) + mset (hand (players s' ! 1)) + mset (hand (players s' ! 2))
       + mset (hand (players s' ! 3)) + mset (drawPile s') = mset (createTileDeck rev)"
    "gameState s' = Playing \<and> currentPlayerIndex s' = 0 \<and> winner s' = None"
    by blast
  have n: "(0::nat) < 4" "(3::nat) < 4" "(0::nat) \<noteq> 3" by simp_all
  from a(3) n have h0: "hand (players s' ! 0) = sortTiles (slice (createTileDeck rev) (13 * 0) (13 * 0 + 13))"
    by blast
  then have ids: "map tile_id (hand (players s' ! 0)) =
       [''wind-north-123'', ''dragon-green-131'', ''dragon-green-130'', ''dragon-green-129'',
        ''dragon-green-128'', ''dragon-red-127'', ''dragon-red-126'', ''dragon-red-125'',
        ''dragon-red-124'', ''dragon-white-135'', ''dragon-white-134'', ''dragon-white-133'',
        ''dragon-white-132'']"
    using first_hand_rev by simp
  from a(3) n have h03: "length (hand (players s' ! 0)) = 13 \<and> inDisplayOrder (hand (players s' ! 0))"
    "length (hand (players s' ! 3)) = 13 \<and> inDisplayOrder (hand (players s' ! 3))" by blast+
  from a(4) n have dj: "set (hand (players s' ! 0)) \<inter> set (hand (players s' ! 3)) = {}"
    by blast
  have "initializeGame rev ''hard'' initialGame = (s', e) \<and>
     length (players s') = 4 \<and>
     map tile_id (hand (players s' ! 0)) =
       [''wind-north-123'', ''dragon-green-131'', ''dragon-green-130'', ''dragon-green-129'',
        ''dragon-green-128'', ''dragon-red-127'', ''dragon-red-126'', ''dragon-red-125'',
        ''dragon-red-124'', ''dragon-white-135'', ''dragon-white-134'', ''dragon-white-133'',
        ''dragon-white-132''] \<and>
     length (hand (players s' ! 0)) = 13 \<and> inDisplayOrder (hand (players s' ! 0)) \<and>
     length (hand (players s' ! 3)) = 13 \<and> inDisplayOrder (hand (players s' ! 3)) \<and>
     set (hand (players s' ! 0)) \<inter> set (hand (players s' ! 3)) = {} \<and>
     length (drawPile s') = 84 \<and>
     mset (hand (players s' ! 0)) + mset (hand (players s' ! 1)) + mset (hand (players s' ! 2))
       + mset (hand (players s' ! 3)) + mset (drawPile s') = mset (createTileDeck rev) \<and>
     gameState s' = Playing \<and> currentPlayerIndex s' = 0 \<and> winner s' = None"
    by (intro conjI a(1) a(2) ids h03[THEN conjunct1] h03[THEN conjunct2] dj a(5) a(6)
          a(7)[THEN conjunct1] a(7)[THEN conjunct2, THEN conjunct1]
          a(7)[THEN conjunct2, THEN conjunct2])
  then have "\<exists>s' e. initializeGame rev ''hard'' initialGame = (s', e) \<and>
     length (players s') = 4 \<and>
     map tile_id (hand (players s' ! 0)) =
       [''wind-north-123'', ''dragon-green-131'', ''dragon-green-130'', ''dragon-green-129'',
        ''dragon-green-128'', ''dragon-red-127'', ''dragon-red-126'', ''dragon-red-125'',
        ''dragon-red-124'', ''dragon-white-135'', ''dragon-white-134'', ''dragon-white-133'',
        ''dragon-white-132''] \<and>
     length (hand (players s' ! 0)) = 13 \<and> inDisplayOrder (hand (players s' ! 0)) \<and>
     length (hand (players s' ! 3)) = 13 \<and> inDisplayOrder (hand (players s' ! 3)) \<and>
     set (hand (players s' ! 0)) \<inter> set (hand (players s' ! 3)) = {} \<and>
     length (drawPile s') = 84 \<and>
     mset (hand (players s' ! 0)) + mset (hand (players s' ! 1)) + mset (hand (players s' ! 2))
       + mset (hand (players s' ! 3)) + mset (drawPile s') = mset (createTileDeck rev) \<and>
     gameState s' = Playing \<and> currentPlayerIndex s' = 0 \<and> winner s' = None"
    by (intro exI)
  with p show ?thesis by (rule conjI)
qed

end
